theory Spec2Isabelle
  imports Main "HOL-Library.Word"
begin

section \<open>Snapchat Memories Downloader: values of the embedding\<close>

text \<open>
  The development embeds \<^verbatim>\<open>download_memories.py\<close>. Python \<^verbatim>\<open>str\<close> values are HOL
  strings (lists of characters with code points below 256), \<^verbatim>\<open>bytes\<close> values
  are lists of 8-bit words, and Python's unbounded \<^verbatim>\<open>int\<close> is \<open>int\<close> or \<open>nat\<close>.
\<close>

type_synonym byte = "8 word"
type_synonym bytes = "byte list"

subsection \<open>Exceptions\<close>

text \<open>
  An exception is a value: its class (as far as \<^verbatim>\<open>except\<close> clauses of the program tell
  classes apart) and the text \<^verbatim>\<open>str(e)\<close>. \<open>OSError\<close> stands for the class with its
  subclasses. A computation that may raise returns \<open>py_exc + 'a\<close>, with \<open>Inl\<close> the
  exception raised.
\<close>

datatype exc_class =
  ValueError | AttributeError | IndexError | KeyError | OSError | OverflowError | RequestException
  | BadZipFile
  | RuntimeError | NotImplementedError

datatype py_exc = Exc (exc_cls: exc_class) (exc_msg: string)

subsection \<open>Strings\<close>

text \<open>
  \<^verbatim>\<open>s.startswith(old)\<close>, and \<^verbatim>\<open>s.replace(old, new)\<close> for a non-empty \<open>old\<close>: every
  occurrence is replaced, scanning from the left, occurrences do not overlap.
\<close>

definition starts_with :: "string \<Rightarrow> string \<Rightarrow> bool" where
  "starts_with old s = (take (length old) s = old)"

function str_replace :: "string \<Rightarrow> string \<Rightarrow> string \<Rightarrow> string" where
  "str_replace old new s =
     (if old \<noteq> [] \<and> starts_with old s
      then new @ str_replace old new (drop (length old) s)
      else (case s of [] \<Rightarrow> [] | c # r \<Rightarrow> c # str_replace old new r))"
  by pat_completeness auto
termination
proof (relation "measure (\<lambda>(old, new, s). length s)")
  show "wf (measure (\<lambda>(old, new, s). length s))" by simp
next
  fix old new s :: string
  assume "old \<noteq> [] \<and> starts_with old s"
  then have "old \<noteq> []" and "take (length old) s = old"
    by (simp_all add: starts_with_def)
  then have "s \<noteq> []" by auto
  with \<open>old \<noteq> []\<close> show "((old, new, drop (length old) s), (old, new, s))
      \<in> measure (\<lambda>(old, new, s). length s)"
    by simp
next
  fix old new s :: string and c r
  assume "s = c # r"
  then show "((old, new, r), (old, new, s)) \<in> measure (\<lambda>(old, new, s). length s)"
    by simp
qed

declare str_replace.simps [simp del]

text \<open>
  \<^verbatim>\<open>sub in s\<close> on strings, and \<^verbatim>\<open>s.lower()\<close>: of the code points below 256 it changes
  the letters A to Z and the letters 192 to 222 other than the sign 215, each to the code
  point 32 above.
\<close>

fun str_contains :: "string \<Rightarrow> string \<Rightarrow> bool" where
  "str_contains sub [] = (sub = [])"
| "str_contains sub (c # cs) = (starts_with sub (c # cs) \<or> str_contains sub cs)"

definition lower_char :: "char \<Rightarrow> char" where
  "lower_char c =
     (let n = (of_char c :: nat)
      in if (65 \<le> n \<and> n \<le> 90) \<or> (192 \<le> n \<and> n \<le> 222 \<and> n \<noteq> 215) then char_of (n + 32)
         else c)"

definition lower :: "string \<Rightarrow> string" where
  "lower s = map lower_char s"

text \<open>
  The format specification \<^verbatim>\<open>{n:02d}\<close> of an f-string, on a non-negative integer: the
  decimal digits, padded with zeros on the left to two characters.
\<close>

fun dec_digits :: "nat \<Rightarrow> string" where
  "dec_digits n =
     (if n < 10 then [char_of (48 + n)] else dec_digits (n div 10) @ [char_of (48 + n mod 10)])"

declare dec_digits.simps [simp del]

definition fmt_02d :: "nat \<Rightarrow> string" where
  "fmt_02d n = (let s = dec_digits n in replicate (2 - length s) CHR ''0'' @ s)"

section \<open>Archive detection\<close>

definition PK :: bytes where
  "PK = [0x50, 0x4B]"

text \<open>
  \<^verbatim>\<open>def is_zip_file(content): return content[:2] == b'PK'\<close>.
  A Python slice never raises: on a shorter buffer it returns what is there, as \<open>take\<close> does.
\<close>

definition is_zip_file :: "bytes \<Rightarrow> bool" where
  "is_zip_file content = (take 2 content = PK)"

definition get_file_extension :: "string \<Rightarrow> string" where
  "get_file_extension media_type = (if media_type = ''Video'' then ''.mp4'' else ''.jpg'')"

section \<open>Parsing dates\<close>

subsection \<open>\<^verbatim>\<open>datetime.strptime(s, '%Y-%m-%d %H:%M:%S')\<close>\<close>

text \<open>
  The standard library turns the format into the regular expression
  \<^verbatim>\<open>(\d\d\d\d)-(1[0-2]|0[1-9]|[1-9])-(3[0-1]|[1-2]\d|0[1-9]|[1-9]| [1-9])\s+\<close>
  \<^verbatim>\<open>(2[0-3]|[0-1]\d|\d):([0-5]\d|\d):(6[0-1]|[0-5]\d|\d)\<close>,
  matches it at the start of the string, raises \<^verbatim>\<open>ValueError\<close> when there is no match or
  when text remains after the match, and builds the \<^verbatim>\<open>datetime\<close>, whose constructor raises
  \<^verbatim>\<open>ValueError\<close> on a year 0, a day the month does not have, or a second above 59.

  Each group is a matcher: the list of its possible matches (value and remaining text) in
  the order the backtracking matcher tries the alternatives. The match the library finds is
  the first one of the whole sequence. Of the code points below 256, \<^verbatim>\<open>\d\<close> matches the
  digits 0 to 9 and \<^verbatim>\<open>\s\<close> the code points 9 to 13, 28 to 32, 133 and 160.
\<close>

definition is_digit :: "char \<Rightarrow> bool" where
  "is_digit c = (48 \<le> (of_char c :: nat) \<and> (of_char c :: nat) \<le> 57)"

definition digit_val :: "char \<Rightarrow> int" where
  "digit_val c = of_char c - 48"

definition is_space :: "char \<Rightarrow> bool" where
  "is_space c =
     (let n = (of_char c :: nat)
      in (9 \<le> n \<and> n \<le> 13) \<or> (28 \<le> n \<and> n \<le> 32) \<or> n = 133 \<or> n = 160)"

type_synonym 'a matcher = "string \<Rightarrow> ('a \<times> string) list"

definition digit2 :: "(int \<Rightarrow> bool) \<Rightarrow> (int \<Rightarrow> bool) \<Rightarrow> int matcher" where
  "digit2 p q s =
     (case s of
        c1 # c2 # r \<Rightarrow>
          if is_digit c1 \<and> is_digit c2 \<and> p (digit_val c1) \<and> q (digit_val c2)
          then [(10 * digit_val c1 + digit_val c2, r)] else []
      | _ \<Rightarrow> [])"

definition digit1 :: "(int \<Rightarrow> bool) \<Rightarrow> int matcher" where
  "digit1 p s =
     (case s of
        c # r \<Rightarrow> if is_digit c \<and> p (digit_val c) then [(digit_val c, r)] else []
      | _ \<Rightarrow> [])"

definition space_digit :: "int matcher" where
  "space_digit s =
     (case s of
        c1 # c2 # r \<Rightarrow>
          if c1 = CHR '' '' \<and> is_digit c2 \<and> 1 \<le> digit_val c2 then [(digit_val c2, r)] else []
      | _ \<Rightarrow> [])"

definition re_Y :: "int matcher" where
  "re_Y s =
     (case s of
        a # b # c # d # r \<Rightarrow>
          if is_digit a \<and> is_digit b \<and> is_digit c \<and> is_digit d
          then [(1000 * digit_val a + 100 * digit_val b + 10 * digit_val c + digit_val d, r)]
          else []
      | _ \<Rightarrow> [])"

definition re_m :: "int matcher" where
  "re_m s = digit2 (\<lambda>a. a = 1) (\<lambda>b. b \<le> 2) s @ digit2 (\<lambda>a. a = 0) (\<lambda>b. 1 \<le> b) s
            @ digit1 (\<lambda>a. 1 \<le> a) s"

definition re_d :: "int matcher" where
  "re_d s = digit2 (\<lambda>a. a = 3) (\<lambda>b. b \<le> 1) s @ digit2 (\<lambda>a. 1 \<le> a \<and> a \<le> 2) (\<lambda>b. True) s
            @ digit2 (\<lambda>a. a = 0) (\<lambda>b. 1 \<le> b) s @ digit1 (\<lambda>a. 1 \<le> a) s @ space_digit s"

definition re_H :: "int matcher" where
  "re_H s = digit2 (\<lambda>a. a = 2) (\<lambda>b. b \<le> 3) s @ digit2 (\<lambda>a. a \<le> 1) (\<lambda>b. True) s
            @ digit1 (\<lambda>a. True) s"

definition re_M :: "int matcher" where
  "re_M s = digit2 (\<lambda>a. a \<le> 5) (\<lambda>b. True) s @ digit1 (\<lambda>a. True) s"

definition re_S :: "int matcher" where
  "re_S s = digit2 (\<lambda>a. a = 6) (\<lambda>b. b \<le> 1) s @ digit2 (\<lambda>a. a \<le> 5) (\<lambda>b. True) s
            @ digit1 (\<lambda>a. True) s"

definition re_lit :: "char \<Rightarrow> string \<Rightarrow> string list" where
  "re_lit ch s = (case s of c # r \<Rightarrow> if c = ch then [r] else [] | _ \<Rightarrow> [])"

definition re_spaces :: "string \<Rightarrow> string list" where
  "re_spaces s = map (\<lambda>n. drop n s) (rev [1 ..< Suc (length (takeWhile is_space s))])"
record datetime =
  year :: int
  month :: int
  day :: int
  hour :: int
  minute :: int
  second :: int

definition format_matches :: "string \<Rightarrow> ((int \<times> int \<times> int \<times> int \<times> int \<times> int) \<times> string) list" where
  "format_matches s =
     [((Y, m, d, H, M, S), r11).
        (Y, r1) \<leftarrow> re_Y s, r2 \<leftarrow> re_lit CHR ''-'' r1,
        (m, r3) \<leftarrow> re_m r2, r4 \<leftarrow> re_lit CHR ''-'' r3,
        (d, r5) \<leftarrow> re_d r4, r6 \<leftarrow> re_spaces r5,
        (H, r7) \<leftarrow> re_H r6, r8 \<leftarrow> re_lit CHR '':'' r7,
        (M, r9) \<leftarrow> re_M r8, r10 \<leftarrow> re_lit CHR '':'' r9,
        (S, r11) \<leftarrow> re_S r10]"
definition is_leap :: "int \<Rightarrow> bool" where
  "is_leap y = (y mod 4 = 0 \<and> (if y mod 100 = 0 then y mod 400 = 0 else True))"

definition days_in_month :: "int \<Rightarrow> int \<Rightarrow> int" where
  "days_in_month y m =
     (if m = 2 then (if is_leap y then 29 else 28)
      else if m = 4 \<or> m = 6 \<or> m = 9 \<or> m = 11 then 30 else 31)"

definition strptime :: "string \<Rightarrow> py_exc + datetime" where
  "strptime data_string =
     (case format_matches data_string of
        [] \<Rightarrow> Inl (Exc ValueError ''time data does not match format'')
      | ((Y, m, d, H, M, S), rest) # _ \<Rightarrow>
          if rest \<noteq> [] then Inl (Exc ValueError ''unconverted data remains'')
          else if Y < 1 then Inl (Exc ValueError ''year is out of range'')
          else if days_in_month Y m < d then Inl (Exc ValueError ''day is out of range for month'')
          else if 59 < S then Inl (Exc ValueError ''second must be in 0..59'')
          else Inr \<lparr>year = Y, month = m, day = d, hour = H, minute = M, second = S\<rparr>)"

subsection \<open>\<^verbatim>\<open>datetime.timestamp()\<close> of a naive date-time\<close>

text \<open>
  The library's proleptic Gregorian ordinal (\<^verbatim>\<open>ymd_to_ord\<close>: 1 is 0001-01-01) and the
  seconds since that origin (\<^verbatim>\<open>utc_to_seconds\<close>); the Unix epoch is ordinal 719163.
\<close>

definition days_before_year :: "int \<Rightarrow> int" where
  "days_before_year y =
     (let p = y - 1 in p * 365 + p div 4 - p div 100 + p div 400)"

definition days_before_month :: "int \<Rightarrow> int \<Rightarrow> int" where
  "days_before_month y m = sum_list (map (days_in_month y) [1 .. m - 1])"

definition ymd_to_ord :: "int \<Rightarrow> int \<Rightarrow> int \<Rightarrow> int" where
  "ymd_to_ord y m d = days_before_year y + days_before_month y m + d"

definition utc_to_seconds :: "datetime \<Rightarrow> int" where
  "utc_to_seconds dt =
     ((ymd_to_ord (year dt) (month dt) (day dt) * 24 + hour dt) * 60 + minute dt) * 60
       + second dt"

definition epoch :: int where
  "epoch = 719163 * 24 * 60 * 60"

text \<open>
  \<^verbatim>\<open>dt.timestamp()\<close> on a naive \<^verbatim>\<open>datetime\<close> (one without \<^verbatim>\<open>tzinfo\<close>, as \<^verbatim>\<open>strptime\<close>
  returns for this format) reads the fields as local time of the host and solves
  \<open>t = local u\<close> for the POSIX time \<open>u\<close>, with the platform's \<^verbatim>\<open>localtime\<close>:
  \<^verbatim>\<open>
  def _mktime(self):
      max_fold_seconds = 24 * 3600
      t = (self - epoch) // timedelta(0, 1)
      def local(u):
          y, m, d, hh, mm, ss = _time.localtime(u)[:6]
          return (datetime(y, m, d, hh, mm, ss) - epoch) // timedelta(0, 1)
      a = local(t) - t
      u1 = t - a
      t1 = local(u1)
      if t1 == t:
          u2 = u1 - max_fold_seconds          # fold is 0
          b = local(u2) - u2
          if a == b:
              return u1
      else:
          b = t1 - u1
      u2 = t - b
      t2 = local(u2)
      if t2 == t:
          return u2
      if t1 == t:
          return u1
      return max(u1, u2)
  \<close>
  The platform is a parameter, \<open>localtime\<close>: for a POSIX time, the local wall-clock reading
  (as the seconds its fields count from 1970-01-01 00:00:00), or the exception the platform
  raises: \<^verbatim>\<open>OverflowError\<close> when the time does not fit the platform's \<^verbatim>\<open>time_t\<close>,
  \<^verbatim>\<open>OSError\<close> when the C library's conversion fails. Building the \<^verbatim>\<open>datetime\<close> of the
  reading raises \<^verbatim>\<open>ValueError\<close> when its year is outside 1..9999. The format has no
  fraction of a second, so the value returned is a whole number, modelled as an \<open>int\<close>.
\<close>

definition min_wall :: int where
  "min_wall = - 62135596800"

definition max_wall :: int where
  "max_wall = 253402300799"

definition local_wall :: "(int \<Rightarrow> py_exc + int) \<Rightarrow> int \<Rightarrow> py_exc + int" where
  "local_wall localtime u =
     (case localtime u of
        Inl x \<Rightarrow> Inl x
      | Inr wall \<Rightarrow>
          if wall < min_wall \<or> max_wall < wall then Inl (Exc ValueError ''year is out of range'')
          else Inr wall)"

definition max_fold_seconds :: int where
  "max_fold_seconds = 24 * 3600"

definition mktime_tail :: "(int \<Rightarrow> py_exc + int) \<Rightarrow> int \<Rightarrow> int \<Rightarrow> int \<Rightarrow> int \<Rightarrow> py_exc + int" where
  "mktime_tail localtime t u1 t1 b =
     (let u2 = t - b
      in case local_wall localtime u2 of
           Inl x \<Rightarrow> Inl x
         | Inr t2 \<Rightarrow> if t2 = t then Inr u2 else if t1 = t then Inr u1 else Inr (max u1 u2))"

definition mktime :: "(int \<Rightarrow> py_exc + int) \<Rightarrow> datetime \<Rightarrow> py_exc + int" where
  "mktime localtime dt =
     (let t = utc_to_seconds dt - epoch
      in case local_wall localtime t of
           Inl x \<Rightarrow> Inl x
         | Inr lt \<Rightarrow>
             (let a = lt - t; u1 = t - a
              in case local_wall localtime u1 of
                   Inl x \<Rightarrow> Inl x
                 | Inr t1 \<Rightarrow>
                     if t1 = t then
                       (let u2 = u1 - max_fold_seconds
                        in case local_wall localtime u2 of
                             Inl x \<Rightarrow> Inl x
                           | Inr lt2 \<Rightarrow>
                               if a = lt2 - u2 then Inr u1
                               else mktime_tail localtime t u1 t1 (lt2 - u2))
                     else mktime_tail localtime t u1 t1 (t1 - u1)))"

definition timestamp :: "(int \<Rightarrow> py_exc + int) \<Rightarrow> datetime \<Rightarrow> py_exc + int" where
  "timestamp localtime dt = mktime localtime dt"

text \<open>
  A host whose zone has a fixed offset from UTC (in seconds, positive east of Greenwich)
  and whose conversion never fails; and a host set to UTC whose C library rejects the times
  before 1970, as \<^verbatim>\<open>localtime_s\<close> of the Windows runtime does.
\<close>

definition fixed_zone :: "int \<Rightarrow> int \<Rightarrow> py_exc + int" where
  "fixed_zone utcoffset u = Inr (u + utcoffset)"

definition fails_before_1970 :: "int \<Rightarrow> py_exc + int" where
  "fails_before_1970 u = (if u < 0 then Inl (Exc OSError ''[Errno 22] Invalid argument'') else Inr u)"

text \<open>
  \<^verbatim>\<open>
  def parse_date_to_timestamp(date_str):
      try:
          date_str_clean = date_str.replace(' UTC', '')
          dt = datetime.strptime(date_str_clean, '%Y-%m-%d %H:%M:%S')
          return dt.timestamp()
      except (ValueError, AttributeError) as e:
          print(...)
          return None
  \<close>
  The result is \<open>Inl\<close> where an exception leaves the function, \<open>Inr None\<close> for Python's
  \<^verbatim>\<open>None\<close>.
\<close>

definition except_ValueError_AttributeError :: "py_exc \<Rightarrow> py_exc + int option" where
  "except_ValueError_AttributeError x =
     (if exc_cls x = ValueError \<or> exc_cls x = AttributeError then Inr None else Inl x)"

definition parse_date_to_timestamp :: "(int \<Rightarrow> py_exc + int) \<Rightarrow> string \<Rightarrow> py_exc + int option" where
  "parse_date_to_timestamp localtime date_str =
     (case strptime (str_replace '' UTC'' [] date_str) of
        Inl x \<Rightarrow> except_ValueError_AttributeError x
      | Inr dt \<Rightarrow>
          (case timestamp localtime dt of
             Inl x \<Rightarrow> except_ValueError_AttributeError x
           | Inr t \<Rightarrow> Inr (Some t)))"

section \<open>The world outside the program\<close>

text \<open>
  A \<^verbatim>\<open>FileRef\<close>, the dictionary \<^verbatim>\<open>{'path': ..., 'size': ..., 'type': ...}\<close> that
  \<^verbatim>\<open>download_and_extract\<close> returns for each file it saved.
\<close>

record fileref =
  file_path :: string
  file_size :: nat
  file_type :: string

text \<open>
  A row parsed from the export document (the input of the pipeline): \<^verbatim>\<open>url\<close> and
  \<^verbatim>\<open>date\<close> are always present, the other keys may be missing.
\<close>

record memory =
  rec_url :: string
  rec_date :: string
  rec_media_type :: "string option"
  rec_latitude :: "string option"
  rec_longitude :: "string option"

text \<open>
  An entry of the ledger \<^verbatim>\<open>metadata.json\<close>, with the keys the program writes; \<^verbatim>\<open>error\<close>
  is the only key that may be absent. \<^verbatim>\<open>status\<close> is the string the program compares.
\<close>

record metadata =
  number :: nat
  date :: string
  media_type :: string
  latitude :: string
  longitude :: string
  url :: string
  status :: string
  files :: "fileref list"
  error :: "string option"

text \<open>
  What the program does to the outside is recorded in a \<open>world\<close>: the files of the output
  directory by name, their modification times, the ledger document, and the trace of the
  effects in the order they happened.
\<close>

datatype event = Get string | Write string | Utime string | Save "metadata list"

record world =
  disk :: "string \<rightharpoonup> bytes"
  mtime :: "string \<rightharpoonup> int"
  metadata_json :: "metadata list option"
  trace :: "event list"

text \<open>
  An opened archive: \<^verbatim>\<open>zf.namelist()\<close> and \<^verbatim>\<open>zf.read(name)\<close>, which raises on a member
  it cannot decode (\<^verbatim>\<open>BadZipFile\<close> on a bad checksum, \<^verbatim>\<open>RuntimeError\<close> on an encrypted
  member, \<^verbatim>\<open>NotImplementedError\<close> on an unsupported compression method).
\<close>

record zip_archive =
  namelist :: "string list"
  read_member :: "string \<Rightarrow> py_exc + bytes"

text \<open>
  What the outside answers is a parameter, \<open>env\<close>. The number given to an answer is the
  length of the trace at the time of the call, so the same request may be answered
  differently later.
  \<^item> \<open>http_get\<close>: \<^verbatim>\<open>requests.get(url, ...)\<close> followed by \<^verbatim>\<open>raise_for_status()\<close>: the body of
    the response, or the message of a \<^verbatim>\<open>requests.RequestException\<close>;
  \<^item> \<open>open_zip\<close>: \<^verbatim>\<open>zipfile.ZipFile(io.BytesIO(content))\<close>: the archive, or the message of a
    \<^verbatim>\<open>BadZipFile\<close>;
  \<^item> \<open>write_error\<close>, \<open>utime_error\<close>, \<open>save_error\<close>, \<open>mkdir_error\<close>: the message of the
    \<^verbatim>\<open>OSError\<close> with which writing a file, setting its times, writing the ledger or creating
    the output directory fails, if it does. A failed write leaves the world as it was;
  \<^item> \<open>localtime\<close>: the host's conversion of a POSIX time to local time, as above.
\<close>

record env =
  http_get :: "nat \<Rightarrow> string \<Rightarrow> string + bytes"
  open_zip :: "bytes \<Rightarrow> string + zip_archive"
  write_error :: "nat \<Rightarrow> string \<Rightarrow> string option"
  utime_error :: "nat \<Rightarrow> string \<Rightarrow> string option"
  save_error :: "nat \<Rightarrow> string option"
  mkdir_error :: "string option"
  localtime :: "int \<Rightarrow> py_exc + int"

text \<open>\<^verbatim>\<open>with open(output_path, 'wb') as f: f.write(data)\<close>\<close>

definition write_file :: "env \<Rightarrow> string \<Rightarrow> bytes \<Rightarrow> world \<Rightarrow> py_exc + world" where
  "write_file e output_filename data w =
     (case write_error e (length (trace w)) output_filename of
        Some msg \<Rightarrow> Inl (Exc OSError msg)
      | None \<Rightarrow>
          Inr (w\<lparr>disk := (disk w)(output_filename \<mapsto> data),
                 trace := trace w @ [Write output_filename]\<rparr>))"

section \<open>Fetch and extract\<close>

text \<open>
  The body of the loop over \<^verbatim>\<open>zf.namelist()\<close> in \<^verbatim>\<open>download_and_extract\<close>:
  \<^verbatim>\<open>
  file_data = zf.read(zip_info)
  if '-overlay' in zip_info.lower():
      file_type = 'overlay'; output_filename = f"{file_num}-overlay{extension}"
  else:
      file_type = 'main'; output_filename = f"{file_num}-main{extension}"
  with open(base_path / output_filename, 'wb') as f: f.write(file_data)
  files_saved.append({'path': output_filename, 'size': len(file_data), 'type': file_type})
  \<close>
\<close>

definition member_type :: "string \<Rightarrow> string" where
  "member_type zip_info =
     (if str_contains ''-overlay'' (lower zip_info) then ''overlay'' else ''main'')"

definition member_filename :: "string \<Rightarrow> string \<Rightarrow> string \<Rightarrow> string" where
  "member_filename file_num extension zip_info =
     (if str_contains ''-overlay'' (lower zip_info) then file_num @ ''-overlay'' @ extension
      else file_num @ ''-main'' @ extension)"

fun extract_members ::
  "env \<Rightarrow> zip_archive \<Rightarrow> string \<Rightarrow> string \<Rightarrow> string list \<Rightarrow> fileref list \<Rightarrow> world
     \<Rightarrow> (py_exc + fileref list) \<times> world" where
  "extract_members e zf file_num extension [] files_saved w = (Inr files_saved, w)"
| "extract_members e zf file_num extension (zip_info # rest) files_saved w =
     (case read_member zf zip_info of
        Inl x \<Rightarrow> (Inl x, w)
      | Inr file_data \<Rightarrow>
          (let file_type = member_type zip_info;
               output_filename = member_filename file_num extension zip_info
           in case write_file e output_filename file_data w of
                Inl x \<Rightarrow> (Inl x, w)
              | Inr w' \<Rightarrow>
                  extract_members e zf file_num extension rest
                    (files_saved @ [\<lparr>file_path = output_filename, file_size = length file_data,
                                     file_type = file_type\<rparr>]) w'))"

text \<open>
  \<^verbatim>\<open>download_and_extract(url, base_path, file_num, extension)\<close>: the request, then the
  archive branch (the loop above over every name of the archive) or the single file
  \<^verbatim>\<open>{file_num}{extension}\<close>. The result is the list \<^verbatim>\<open>files_saved\<close> or the exception raised,
  with the world as the call left it.
\<close>

definition download_and_extract ::
  "env \<Rightarrow> string \<Rightarrow> string \<Rightarrow> string \<Rightarrow> world \<Rightarrow> (py_exc + fileref list) \<times> world" where
  "download_and_extract e url' file_num extension w =
     (let w1 = w\<lparr>trace := trace w @ [Get url']\<rparr> in
      case http_get e (length (trace w)) url' of
        Inl msg \<Rightarrow> (Inl (Exc RequestException msg), w1)
      | Inr content \<Rightarrow>
          if is_zip_file content then
            (case open_zip e content of
               Inl msg \<Rightarrow> (Inl (Exc BadZipFile msg), w1)
             | Inr zf \<Rightarrow> extract_members e zf file_num extension (namelist zf) [] w1)
          else
            (let output_filename = file_num @ extension
             in case write_file e output_filename content w1 of
                  Inl x \<Rightarrow> (Inl x, w1)
                | Inr w2 \<Rightarrow>
                    (Inr [\<lparr>file_path = output_filename, file_size = length content,
                           file_type = ''single''\<rparr>], w2)))"

section \<open>The ledger and the orchestrator\<close>

text \<open>
  \<^verbatim>\<open>set_file_timestamp(file_path, timestamp)\<close>: \<^verbatim>\<open>if timestamp: os.utime(...)\<close>. Python's
  \<^verbatim>\<open>None\<close> and \<^verbatim>\<open>0.0\<close> are both false. \<^verbatim>\<open>os.utime\<close> raises \<^verbatim>\<open>OSError\<close> on a file that
  does not exist.
\<close>

definition truthy :: "int option \<Rightarrow> bool" where
  "truthy ts = (case ts of None \<Rightarrow> False | Some t \<Rightarrow> t \<noteq> 0)"

definition set_file_timestamp :: "env \<Rightarrow> string \<Rightarrow> int option \<Rightarrow> world \<Rightarrow> py_exc + world" where
  "set_file_timestamp e path ts w =
     (case ts of
        None \<Rightarrow> Inr w
      | Some t \<Rightarrow>
          if t = 0 then Inr w
          else if disk w path = None then Inl (Exc OSError ''No such file or directory'')
          else (case utime_error e (length (trace w)) path of
                  Some msg \<Rightarrow> Inl (Exc OSError msg)
                | None \<Rightarrow> Inr (w\<lparr>mtime := (mtime w)(path \<mapsto> t), trace := trace w @ [Utime path]\<rparr>)))"

fun set_file_timestamps :: "env \<Rightarrow> fileref list \<Rightarrow> int option \<Rightarrow> world \<Rightarrow> (py_exc + unit) \<times> world" where
  "set_file_timestamps e [] ts w = (Inr (), w)"
| "set_file_timestamps e (file_info # rest) ts w =
     (case set_file_timestamp e (file_path file_info) ts w of
        Inl x \<Rightarrow> (Inl x, w)
      | Inr w' \<Rightarrow> set_file_timestamps e rest ts w')"

text \<open>\<^verbatim>\<open>save_metadata(metadata_list, output_path)\<close>: the whole ledger is written.\<close>

definition save_metadata :: "env \<Rightarrow> metadata list \<Rightarrow> world \<Rightarrow> py_exc + world" where
  "save_metadata e metadata_list w =
     (case save_error e (length (trace w)) of
        Some msg \<Rightarrow> Inl (Exc OSError msg)
      | None \<Rightarrow>
          Inr (w\<lparr>metadata_json := Some metadata_list, trace := trace w @ [Save metadata_list]\<rparr>))"

text \<open>
  \<^verbatim>\<open>initialize_metadata(memories, output_path)\<close>: an existing ledger is loaded as it is;
  otherwise one entry per row is created, numbered from 1, and the ledger is written.
  \<^verbatim>\<open>memory.get(key, default)\<close> is \<open>case_option default id\<close>.
\<close>

definition new_metadata :: "nat \<times> memory \<Rightarrow> metadata" where
  "new_metadata = (\<lambda>(idx, memory).
     \<lparr>number = idx,
      date = rec_date memory,
      media_type = (case rec_media_type memory of None \<Rightarrow> ''Unknown'' | Some t \<Rightarrow> t),
      latitude = (case rec_latitude memory of None \<Rightarrow> ''Unknown'' | Some t \<Rightarrow> t),
      longitude = (case rec_longitude memory of None \<Rightarrow> ''Unknown'' | Some t \<Rightarrow> t),
      url = rec_url memory,
      status = ''pending'',
      files = [],
      error = None\<rparr>)"

definition initialize_metadata :: "env \<Rightarrow> memory list \<Rightarrow> world \<Rightarrow> py_exc + metadata list \<times> world" where
  "initialize_metadata e memories w =
     (case metadata_json w of
        Some loaded \<Rightarrow> Inr (loaded, w)
      | None \<Rightarrow>
          (let metadata_list = map new_metadata (enumerate 1 memories)
           in case save_metadata e metadata_list w of
                Inl x \<Rightarrow> Inl x
              | Inr w' \<Rightarrow> Inr (metadata_list, w')))"

text \<open>
  The selection of \<^verbatim>\<open>download_all_memories\<close>:
  \<^verbatim>\<open>
  if resume:
      items_to_download = [(i, m) for i, m in enumerate(metadata_list)
                           if m.get('status') in ['pending', 'in_progress', 'failed']]
  elif retry_failed:
      items_to_download = [(i, m) for i, m in enumerate(metadata_list)
                           if m.get('status') == 'failed']
  else:
      items_to_download = list(enumerate(metadata_list))
  \<close>
\<close>

definition items_to_download :: "bool \<Rightarrow> bool \<Rightarrow> metadata list \<Rightarrow> (nat \<times> metadata) list" where
  "items_to_download resume retry_failed metadata_list =
     (if resume then
        filter (\<lambda>(i, m). status m \<in> set [''pending'', ''in_progress'', ''failed''])
          (enumerate 0 metadata_list)
      else if retry_failed then
        filter (\<lambda>(i, m). status m = ''failed'') (enumerate 0 metadata_list)
      else enumerate 0 metadata_list)"

text \<open>
  The \<^verbatim>\<open>try\<close> block of the loop: the download, the report of what was saved (where
  \<^verbatim>\<open>files_saved[0]\<close> raises \<^verbatim>\<open>IndexError\<close> on an empty list) and the time stamps.
\<close>

definition try_block ::
  "env \<Rightarrow> memory \<Rightarrow> metadata \<Rightarrow> string \<Rightarrow> string \<Rightarrow> world \<Rightarrow> (py_exc + fileref list) \<times> world" where
  "try_block e memory m file_num extension w =
     (case download_and_extract e (rec_url memory) file_num extension w of
        (Inl x, w1) \<Rightarrow> (Inl x, w1)
      | (Inr files_saved, w1) \<Rightarrow>
          if \<not> 1 < length files_saved \<and> files_saved = []
          then (Inl (Exc IndexError ''list index out of range''), w1)
          else (case parse_date_to_timestamp (localtime e) (date m) of
                  Inl x \<Rightarrow> (Inl x, w1)
                | Inr ts \<Rightarrow>
                    if truthy ts then
                      (case set_file_timestamps e files_saved ts w1 of
                         (Inl x, w2) \<Rightarrow> (Inl x, w2)
                       | (Inr u, w2) \<Rightarrow> (Inr files_saved, w2))
                    else (Inr files_saved, w1)))"

text \<open>\<^verbatim>\<open>except (OSError, requests.RequestException, zipfile.BadZipFile) as e\<close>\<close>

definition caught :: "py_exc \<Rightarrow> bool" where
  "caught x = (exc_cls x \<in> set [OSError, RequestException, BadZipFile])"

text \<open>
  One iteration of the loop over \<^verbatim>\<open>items_to_download\<close>, on the ledger in memory and the
  world. The result says whether an exception left the loop. \<^verbatim>\<open>metadata\<close> is the
  dictionary that \<^verbatim>\<open>metadata_list[idx]\<close> holds, so assigning to its keys updates the ledger
  at \<open>idx\<close>; each entry is selected once.
  \<^verbatim>\<open>
  memory = memories[idx]
  file_num = f"{metadata['number']:02d}"
  extension = get_file_extension(metadata.get('media_type', 'Image'))
  if metadata.get('status') == 'success' and metadata.get('files'):
      continue
  metadata['status'] = 'in_progress'
  save_metadata(metadata_list, output_path)
  try:
      ...
      metadata['status'] = 'success'
      metadata['files'] = files_saved
  except (OSError, requests.RequestException, zipfile.BadZipFile) as e:
      metadata['status'] = 'failed'
      metadata['error'] = str(e)
  save_metadata(metadata_list, output_path)
  \<close>
\<close>

definition save_and_continue ::
  "env \<Rightarrow> metadata list \<Rightarrow> world \<Rightarrow> py_exc option \<times> metadata list \<times> world" where
  "save_and_continue e metadata_list w =
     (case save_metadata e metadata_list w of
        Inl x \<Rightarrow> (Some x, metadata_list, w)
      | Inr w' \<Rightarrow> (None, metadata_list, w'))"

definition process_item ::
  "env \<Rightarrow> memory list \<Rightarrow> nat \<times> metadata \<Rightarrow> metadata list \<times> world
     \<Rightarrow> py_exc option \<times> metadata list \<times> world" where
  "process_item e memories = (\<lambda>(idx, m) (metadata_list, w).
     if length memories \<le> idx
     then (Some (Exc IndexError ''list index out of range''), metadata_list, w)
     else
       (let memory = memories ! idx;
            file_num = fmt_02d (number m);
            extension = get_file_extension (media_type m)
        in if status m = ''success'' \<and> files m \<noteq> [] then (None, metadata_list, w)
           else
             (let m1 = m\<lparr>status := ''in_progress''\<rparr>;
                  list1 = metadata_list[idx := m1]
              in case save_metadata e list1 w of
                   Inl x \<Rightarrow> (Some x, list1, w)
                 | Inr w1 \<Rightarrow>
                     (case try_block e memory m1 file_num extension w1 of
                        (Inr files_saved, w2) \<Rightarrow>
                          save_and_continue e
                            (list1[idx := m1\<lparr>status := ''success'', files := files_saved\<rparr>]) w2
                      | (Inl x, w2) \<Rightarrow>
                          if caught x then
                            save_and_continue e
                              (list1[idx := m1\<lparr>status := ''failed'', error := Some (exc_msg x)\<rparr>]) w2
                          else (Some x, list1, w2)))))"

fun process_items ::
  "env \<Rightarrow> memory list \<Rightarrow> (nat \<times> metadata) list \<Rightarrow> metadata list \<times> world
     \<Rightarrow> py_exc option \<times> metadata list \<times> world" where
  "process_items e memories [] s = (None, s)"
| "process_items e memories (item # rest) s =
     (case process_item e memories item s of
        (Some x, s') \<Rightarrow> (Some x, s')
      | (None, s') \<Rightarrow> process_items e memories rest s')"

text \<open>
  \<^verbatim>\<open>download_all_memories(html_path, output_dir, resume, retry_failed)\<close>, from the rows
  \<^verbatim>\<open>parse_html_file\<close> returned: the result is the exception that ended the run, if any,
  and the world the run left.
\<close>

definition download_all_memories ::
  "env \<Rightarrow> memory list \<Rightarrow> bool \<Rightarrow> bool \<Rightarrow> world \<Rightarrow> py_exc option \<times> world" where
  "download_all_memories e memories resume retry_failed w =
     (if memories = [] then (None, w)
      else case mkdir_error e of
        Some msg \<Rightarrow> (Some (Exc OSError msg), w)
      | None \<Rightarrow>
         (case initialize_metadata e memories w of
            Inl x \<Rightarrow> (Some x, w)
          | Inr (metadata_list, w1) \<Rightarrow>
              (let items = items_to_download resume retry_failed metadata_list
               in if items = [] then (None, w1)
                  else (case process_items e memories items (metadata_list, w1) of
                          (Some x, final_list, w2) \<Rightarrow> (Some x, w2)
                        | (None, final_list, w2) \<Rightarrow>
                            (case save_metadata e final_list w2 of
                               Inl x \<Rightarrow> (Some x, w2)
                             | Inr w3 \<Rightarrow> (None, w3))))))"

section \<open>Expected effects and concrete scenarios\<close>

text \<open>
  The shape of a date, said without the matcher: four digits, \<^verbatim>\<open>-\<close>, a number of one or
  two digits, \<^verbatim>\<open>-\<close>, a day (one or two digits, or a space and a digit), white space, and
  three numbers of one or two digits separated by \<^verbatim>\<open>:\<close>. A text that does not have this
  shape does not parse as \<^verbatim>\<open>YYYY-MM-DD HH:MM:SS\<close>.
\<close>

definition number_text :: "string \<Rightarrow> bool" where
  "number_text f = ((length f = 1 \<or> length f = 2) \<and> list_all is_digit f)"

definition day_text :: "string \<Rightarrow> bool" where
  "day_text f = (number_text f \<or> (\<exists>c. f = [CHR '' '', c] \<and> is_digit c))"

definition date_shaped :: "string \<Rightarrow> bool" where
  "date_shaped s =
     (\<exists>Y m d sp H M S.
        s = Y @ ''-'' @ m @ ''-'' @ d @ sp @ H @ '':'' @ M @ '':'' @ S
      \<and> length Y = 4 \<and> list_all is_digit Y
      \<and> number_text m \<and> day_text d
      \<and> sp \<noteq> [] \<and> list_all is_space sp
      \<and> number_text H \<and> number_text M \<and> number_text S)"

text \<open>
  The world after a successful write of \<open>d\<close> to \<open>p\<close>, the \<^verbatim>\<open>FileRef\<close> expected for an
  archive member whose content is \<open>data zip_info\<close>, and the world after all the members
  of a list were written in order.
\<close>

definition written :: "world \<Rightarrow> string \<Rightarrow> bytes \<Rightarrow> world" where
  "written w p d = w\<lparr>disk := (disk w)(p \<mapsto> d), trace := trace w @ [Write p]\<rparr>"

definition member_ref :: "string \<Rightarrow> string \<Rightarrow> (string \<Rightarrow> bytes) \<Rightarrow> string \<Rightarrow> fileref" where
  "member_ref file_num extension data zip_info =
     \<lparr>file_path = member_filename file_num extension zip_info,
      file_size = length (data zip_info),
      file_type = member_type zip_info\<rparr>"

definition extracted :: "string \<Rightarrow> string \<Rightarrow> (string \<Rightarrow> bytes) \<Rightarrow> string list \<Rightarrow> world \<Rightarrow> world" where
  "extracted file_num extension data names w =
     foldl (\<lambda>w' zip_info. written w' (member_filename file_num extension zip_info) (data zip_info)) w names"

text \<open>
  An empty output directory; an outside where nothing fails and every request gets the
  same answer; and an archive given by its members in order (\<^verbatim>\<open>zf.read(name)\<close> returns
  the last member of that name and raises \<^verbatim>\<open>KeyError\<close> on a name the archive lacks).
\<close>

definition fresh_world :: world where
  "fresh_world = \<lparr>disk = Map.empty, mtime = Map.empty, metadata_json = None, trace = []\<rparr>"

definition quiet_env :: "string + bytes \<Rightarrow> string + zip_archive \<Rightarrow> env" where
  "quiet_env response archive =
     \<lparr>http_get = (\<lambda>n u. response), open_zip = (\<lambda>content. archive),
      write_error = (\<lambda>n p. None), utime_error = (\<lambda>n p. None), save_error = (\<lambda>n. None),
      mkdir_error = None, localtime = fixed_zone 0\<rparr>"

definition zip_of :: "(string \<times> bytes) list \<Rightarrow> zip_archive" where
  "zip_of members =
     \<lparr>namelist = map fst members,
      read_member = (\<lambda>zip_info. case map_of (rev members) zip_info of
                                  None \<Rightarrow> Inl (Exc KeyError ''There is no item with that name in the archive'')
                                | Some file_data \<Rightarrow> Inr file_data)\<rparr>"

definition main_and_overlay_zip :: zip_archive where
  "main_and_overlay_zip = zip_of [(''video-main.mp4'', [0, 0, 0]), (''video-OVERLAY.png'', [1, 1])]"

definition two_plain_zip :: zip_archive where
  "two_plain_zip = zip_of [(''a.jpg'', [7]), (''b.jpg'', [8, 9])]"

definition zip_body :: bytes where
  "zip_body = [0x50, 0x4B, 0x03, 0x04]"

definition jpeg_body :: bytes where
  "jpeg_body = [0xFF, 0xD8, 0xFF, 0xE0, 0x00]"

subsection \<open>The ledger invariant and the trace\<close>

text \<open>
  An entry is consistent when its \<^verbatim>\<open>files\<close> list is non-empty exactly if its status is
  \<^verbatim>\<open>success\<close>; a ledger when all its entries are; a world when every ledger ever written
  (the \<open>Save\<close> events of the trace) and the ledger document are.
\<close>


definition entry_ok :: "metadata \<Rightarrow> bool" where
  "entry_ok m = (files m \<noteq> [] \<longleftrightarrow> status m = ''success'')"

definition ledger_ok :: "metadata list \<Rightarrow> bool" where
  "ledger_ok metadata_list = list_all entry_ok metadata_list"

definition world_ok :: "world \<Rightarrow> bool" where
  "world_ok w =
     (list_all (\<lambda>ev. case ev of Save saved \<Rightarrow> ledger_ok saved | _ \<Rightarrow> True) (trace w)
      \<and> (case metadata_json w of None \<Rightarrow> True | Some saved \<Rightarrow> ledger_ok saved))"

text \<open>
  \<open>extends w ev w'\<close>: the world \<open>w'\<close> is \<open>w\<close> after the events \<open>ev\<close>, none of which
  writes the ledger. \<open>persisted metadata_list w\<close> is the world after a successful
  \<^verbatim>\<open>save_metadata\<close>.
\<close>


fun is_Save :: "event \<Rightarrow> bool" where
  "is_Save (Save L) = True"
| "is_Save _ = False"

definition extends :: "world \<Rightarrow> event list \<Rightarrow> world \<Rightarrow> bool" where
  "extends w ev w' =
     (trace w' = trace w @ ev \<and> list_all (\<lambda>x. \<not> is_Save x) ev \<and> metadata_json w' = metadata_json w)"

definition persisted :: "metadata list \<Rightarrow> world \<Rightarrow> world" where
  "persisted metadata_list w =
     w\<lparr>metadata_json := Some metadata_list, trace := trace w @ [Save metadata_list]\<rparr>"

subsection \<open>Scenarios of the orchestrator\<close>

text \<open>
  Two rows of an export; an outside that serves a JPEG body, one that answers every request
  with an HTTP error, and one that serves an archive whose member is encrypted; the ledger
  seeded from the two rows; and a ledger with one entry in each state.
\<close>


definition first_memory :: memory where
  "first_memory = \<lparr>rec_url = ''https://example.com/1.jpg'', rec_date = ''2024-01-01 12:00:00 UTC'',
     rec_media_type = Some ''Image'', rec_latitude = Some ''34.05'', rec_longitude = Some ''-118.25''\<rparr>"

definition second_memory :: memory where
  "second_memory = \<lparr>rec_url = ''https://example.com/2.mp4'', rec_date = ''2024-01-02 13:30:00 UTC'',
     rec_media_type = Some ''Video'', rec_latitude = None, rec_longitude = None\<rparr>"

definition jpeg_env :: env where
  "jpeg_env = quiet_env (Inr jpeg_body) (Inl ''File is not a zip file'')"

definition not_found_env :: env where
  "not_found_env = quiet_env (Inl ''404 Client Error: Not Found for url'') (Inl ''File is not a zip file'')"

definition encrypted_zip :: zip_archive where
  "encrypted_zip =
     \<lparr>namelist = [''secret.jpg''],
      read_member = (\<lambda>zip_info. Inl (Exc RuntimeError ''File is encrypted, password required for extraction''))\<rparr>"

definition encrypted_env :: env where
  "encrypted_env = quiet_env (Inr zip_body) (Inr encrypted_zip)"

definition seeded :: "metadata list" where
  "seeded = map new_metadata (enumerate 1 [first_memory, second_memory])"

definition mixed_ledger :: "metadata list" where
  "mixed_ledger =
     [(new_metadata (1, first_memory))
        \<lparr>status := ''success'',
         files := [\<lparr>file_path = ''01.jpg'', file_size = 5, file_type = ''single''\<rparr>]\<rparr>,
      (new_metadata (2, second_memory))\<lparr>status := ''failed'', error := Some ''timeout''\<rparr>,
      new_metadata (3, first_memory),
      (new_metadata (4, second_memory))\<lparr>status := ''in_progress''\<rparr>]"

text \<open>
  The end of a run after the loop: an exception that left the loop ends the run, otherwise
  the ledger is written once more. Four rows, a world whose output directory holds a ledger
  and nothing else, and a ledger of two finished entries.
\<close>

definition final_save ::
  "env \<Rightarrow> py_exc option \<times> metadata list \<times> world \<Rightarrow> py_exc option \<times> world" where
  "final_save e r =
     (case r of
        (Some x, final_list, w2) \<Rightarrow> (Some x, w2)
      | (None, final_list, w2) \<Rightarrow>
          (case save_metadata e final_list w2 of
             Inl x \<Rightarrow> (Some x, w2)
           | Inr w3 \<Rightarrow> (None, w3)))"

definition four_memories :: "memory list" where
  "four_memories = [first_memory, second_memory, first_memory, second_memory]"

definition with_ledger :: "metadata list \<Rightarrow> world" where
  "with_ledger metadata_list = fresh_world\<lparr>metadata_json := Some metadata_list\<rparr>"

definition done_ledger :: "metadata list" where
  "done_ledger =
     [(new_metadata (1, first_memory))
        \<lparr>status := ''success'',
         files := [\<lparr>file_path = ''01.jpg'', file_size = 5, file_type = ''single''\<rparr>]\<rparr>,
      (new_metadata (2, second_memory))
        \<lparr>status := ''success'',
         files := [\<lparr>file_path = ''02.mp4'', file_size = 5, file_type = ''single''\<rparr>]\<rparr>]"

section \<open>Properties of archive detection\<close>

text \<open>
  Claim C9. For every byte buffer, \<open>is_zip_file\<close> is true exactly when the buffer starts
  with the two bytes of the ZIP signature \<^verbatim>\<open>b'PK'\<close>; on the empty buffer and on every buffer
  shorter than two bytes it is false (the function is total: the slice cannot raise).
\<close>

theorem is_zip_file_iff_magic:
  "(is_zip_file content \<longleftrightarrow> (\<exists>rest. content = 0x50 # 0x4B # rest))
   \<and> (length content < 2 \<longrightarrow> \<not> is_zip_file content)
   \<and> \<not> is_zip_file []"
proof -
  have a: "is_zip_file content \<longleftrightarrow> (\<exists>rest. content = 0x50 # 0x4B # rest)"
  proof (cases content)
    case Nil
    then show ?thesis by (simp add: is_zip_file_def PK_def)
  next
    case (Cons b bs)
    then show ?thesis
      by (cases bs) (auto simp: is_zip_file_def PK_def)
  qed
  have b: "length content < 2 \<longrightarrow> \<not> is_zip_file content"
    unfolding a by auto
  have c: "\<not> is_zip_file []"
    by (simp add: is_zip_file_def PK_def)
  from a b c show ?thesis by blast
qed

theorem is_zip_file_iff_magic_witness:
  "length [0x50 :: byte] < 2 \<and> \<not> is_zip_file [0x50]
   \<and> is_zip_file [0x50, 0x4B, 0x03, 0x04]"
  using is_zip_file_iff_magic [of "[0x50]"] is_zip_file_iff_magic [of "[0x50, 0x4B, 0x03, 0x04]"]
  by simp

section \<open>Properties of date parsing\<close>

subsection \<open>What the matcher accepts has the shape of a date\<close>

lemma digit2_sound:
  "(v, r) \<in> set (digit2 p q s) \<Longrightarrow> \<exists>f. s = f @ r \<and> number_text f"
proof -
  assume a: "(v, r) \<in> set (digit2 p q s)"
  then obtain c1 c2 where "s = c1 # c2 # r" and "is_digit c1" and "is_digit c2"
    by (auto simp: digit2_def split: list.splits if_splits)
  then have "s = [c1, c2] @ r \<and> number_text [c1, c2]"
    by (simp add: number_text_def)
  then show ?thesis by blast
qed

lemma digit1_sound:
  "(v, r) \<in> set (digit1 p s) \<Longrightarrow> \<exists>f. s = f @ r \<and> number_text f"
proof -
  assume a: "(v, r) \<in> set (digit1 p s)"
  then obtain c where "s = c # r" and "is_digit c"
    by (auto simp: digit1_def split: list.splits if_splits)
  then have "s = [c] @ r \<and> number_text [c]"
    by (simp add: number_text_def)
  then show ?thesis by blast
qed

lemma space_digit_sound:
  "(v, r) \<in> set (space_digit s) \<Longrightarrow> \<exists>f. s = f @ r \<and> day_text f"
proof -
  assume a: "(v, r) \<in> set (space_digit s)"
  then obtain c where "s = CHR '' '' # c # r" and "is_digit c"
    by (auto simp: space_digit_def split: list.splits if_splits)
  then have "s = [CHR '' '', c] @ r \<and> day_text [CHR '' '', c]"
    by (simp add: day_text_def)
  then show ?thesis by blast
qed

lemma re_m_sound: "(v, r) \<in> set (re_m s) \<Longrightarrow> \<exists>f. s = f @ r \<and> number_text f"
  unfolding re_m_def using digit2_sound digit1_sound by (fastforce simp: set_append)

lemma re_H_sound: "(v, r) \<in> set (re_H s) \<Longrightarrow> \<exists>f. s = f @ r \<and> number_text f"
  unfolding re_H_def using digit2_sound digit1_sound by (fastforce simp: set_append)

lemma re_M_sound: "(v, r) \<in> set (re_M s) \<Longrightarrow> \<exists>f. s = f @ r \<and> number_text f"
  unfolding re_M_def using digit2_sound digit1_sound by (fastforce simp: set_append)

lemma re_S_sound: "(v, r) \<in> set (re_S s) \<Longrightarrow> \<exists>f. s = f @ r \<and> number_text f"
  unfolding re_S_def using digit2_sound digit1_sound by (fastforce simp: set_append)

lemma re_d_sound: "(v, r) \<in> set (re_d s) \<Longrightarrow> \<exists>f. s = f @ r \<and> day_text f"
proof -
  assume "(v, r) \<in> set (re_d s)"
  then consider (two) p q where "(v, r) \<in> set (digit2 p q s)"
    | (one) p where "(v, r) \<in> set (digit1 p s)"
    | (sp) "(v, r) \<in> set (space_digit s)"
    unfolding re_d_def by (auto simp: set_append)
  then show ?thesis
  proof cases
    case two
    then show ?thesis using digit2_sound by (fastforce simp: day_text_def)
  next
    case one
    then show ?thesis using digit1_sound by (fastforce simp: day_text_def)
  next
    case sp
    then show ?thesis by (rule space_digit_sound)
  qed
qed

lemma re_Y_sound:
  "(v, r) \<in> set (re_Y s) \<Longrightarrow> \<exists>f. s = f @ r \<and> length f = 4 \<and> list_all is_digit f"
proof -
  assume "(v, r) \<in> set (re_Y s)"
  then obtain a b c d where "s = a # b # c # d # r"
    and "is_digit a" "is_digit b" "is_digit c" "is_digit d"
    by (auto simp: re_Y_def split: list.splits if_splits)
  then have "s = [a, b, c, d] @ r \<and> length [a, b, c, d] = 4 \<and> list_all is_digit [a, b, c, d]"
    by simp
  then show ?thesis by blast
qed

lemma re_lit_sound: "r \<in> set (re_lit ch s) \<Longrightarrow> s = [ch] @ r"
  by (auto simp: re_lit_def split: list.splits if_splits)

lemma re_spaces_sound:
  "r \<in> set (re_spaces s) \<Longrightarrow> \<exists>sp. s = sp @ r \<and> sp \<noteq> [] \<and> list_all is_space sp"
proof -
  assume "r \<in> set (re_spaces s)"
  then obtain n where r: "r = drop n s" and n1: "1 \<le> n" and n2: "n \<le> length (takeWhile is_space s)"
    by (auto simp: re_spaces_def)
  have "take n (takeWhile is_space s @ dropWhile is_space s)
          = take n (takeWhile is_space s) @ take (n - length (takeWhile is_space s)) (dropWhile is_space s)"
    by (rule take_append)
  then have tk: "take n s = take n (takeWhile is_space s)"
    using n2 by (simp only: takeWhile_dropWhile_id) simp
  have "set (take n (takeWhile is_space s)) \<subseteq> set (takeWhile is_space s)"
    by (rule set_take_subset)
  then have all: "list_all is_space (take n s)"
    unfolding tk list_all_iff using set_takeWhileD by fastforce
  have "length (takeWhile is_space s) \<le> length s" by (rule length_takeWhile_le)
  with n1 n2 have "take n s \<noteq> []" by auto
  moreover have "s = take n s @ r" by (simp add: r)
  ultimately show ?thesis using all by blast
qed

lemma format_matches_sound:
  assumes "((Y, m, d, H, M, S), r) \<in> set (format_matches s)"
  shows "\<exists>fY fm fd sp fH fM fS.
           s = fY @ ''-'' @ fm @ ''-'' @ fd @ sp @ fH @ '':'' @ fM @ '':'' @ fS @ r
         \<and> length fY = 4 \<and> list_all is_digit fY
         \<and> number_text fm \<and> day_text fd
         \<and> sp \<noteq> [] \<and> list_all is_space sp
         \<and> number_text fH \<and> number_text fM \<and> number_text fS"
proof -
  from assms obtain r1 r2 r3 r4 r5 r6 r7 r8 r9 r10 where
    a1: "(Y, r1) \<in> set (re_Y s)" and a2: "r2 \<in> set (re_lit CHR ''-'' r1)"
    and a3: "(m, r3) \<in> set (re_m r2)" and a4: "r4 \<in> set (re_lit CHR ''-'' r3)"
    and a5: "(d, r5) \<in> set (re_d r4)" and a6: "r6 \<in> set (re_spaces r5)"
    and a7: "(H, r7) \<in> set (re_H r6)" and a8: "r8 \<in> set (re_lit CHR '':'' r7)"
    and a9: "(M, r9) \<in> set (re_M r8)" and a10: "r10 \<in> set (re_lit CHR '':'' r9)"
    and a11: "(S, r) \<in> set (re_S r10)"
    unfolding format_matches_def by auto
  from a1 obtain fY where 1: "s = fY @ r1" "length fY = 4" "list_all is_digit fY"
    using re_Y_sound by blast
  from a2 have 2: "r1 = ''-'' @ r2" by (rule re_lit_sound)
  from a3 obtain fm where 3: "r2 = fm @ r3" "number_text fm" using re_m_sound by blast
  from a4 have 4: "r3 = ''-'' @ r4" by (rule re_lit_sound)
  from a5 obtain fd where 5: "r4 = fd @ r5" "day_text fd" using re_d_sound by blast
  from a6 obtain sp where 6: "r5 = sp @ r6" "sp \<noteq> []" "list_all is_space sp"
    using re_spaces_sound by blast
  from a7 obtain fH where 7: "r6 = fH @ r7" "number_text fH" using re_H_sound by blast
  from a8 have 8: "r7 = '':'' @ r8" by (rule re_lit_sound)
  from a9 obtain fM where 9: "r8 = fM @ r9" "number_text fM" using re_M_sound by blast
  from a10 have 10: "r9 = '':'' @ r10" by (rule re_lit_sound)
  from a11 obtain fS where 11: "r10 = fS @ r" "number_text fS" using re_S_sound by blast
  have "s = fY @ ''-'' @ fm @ ''-'' @ fd @ sp @ fH @ '':'' @ fM @ '':'' @ fS @ r"
    by (simp add: 1(1) 2 3(1) 4 5(1) 6(1) 7(1) 8 9(1) 10 11(1))
  with 1(2,3) 3(2) 5(2) 6(2,3) 7(2) 9(2) 11(2) show ?thesis by blast
qed

lemma strptime_Inr_shaped:
  assumes "strptime s = Inr dt"
  shows "date_shaped s"
proof -
  from assms obtain Y m d H M S rest where
    hd: "format_matches s = ((Y, m, d, H, M, S), []) # rest"
    by (auto simp: strptime_def split: list.splits prod.splits if_splits)
  then have "((Y, m, d, H, M, S), []) \<in> set (format_matches s)" by simp
  from format_matches_sound [OF this] show ?thesis
    unfolding date_shaped_def by simp
qed

lemma date_shaped_prefix:
  assumes "date_shaped s"
  shows "list_all is_digit (take 4 s)"
proof -
  from assms obtain Y m d sp H M S where
    s: "s = Y @ ''-'' @ m @ ''-'' @ d @ sp @ H @ '':'' @ M @ '':'' @ S"
    and len: "length Y = 4" and dig: "list_all is_digit Y"
    unfolding date_shaped_def by (elim exE conjE)
  from len have "take 4 (Y @ ''-'' @ m @ ''-'' @ d @ sp @ H @ '':'' @ M @ '':'' @ S) = Y"
    by simp
  with s dig show ?thesis by simp
qed

lemma invalid_date_not_shaped: "\<not> date_shaped ''invalid date''"
proof
  assume "date_shaped ''invalid date''"
  then have "list_all is_digit (take 4 ''invalid date'')" by (rule date_shaped_prefix)
  then show False by (simp add: is_digit_def)
qed

subsection \<open>What can be raised\<close>

lemma strptime_raises_ValueError: "strptime s = Inl x \<Longrightarrow> exc_cls x = ValueError"
  by (auto simp: strptime_def split: list.splits prod.splits if_splits)

lemma local_wall_raises:
  "local_wall lt_fun u = Inl x \<Longrightarrow> exc_cls x = ValueError \<or> lt_fun u = Inl x"
  by (auto simp: local_wall_def split: sum.splits if_splits)

lemma mktime_tail_raises:
  "mktime_tail lt_fun t u1 t1 b = Inl x \<Longrightarrow> exc_cls x = ValueError \<or> (\<exists>u. lt_fun u = Inl x)"
  unfolding mktime_tail_def Let_def
  using local_wall_raises by (fastforce split: sum.splits if_splits)

lemma timestamp_raises:
  assumes "timestamp lt_fun dt = Inl x"
  shows "exc_cls x = ValueError \<or> (\<exists>u. lt_fun u = Inl x)"
proof -
  let ?t = "utc_to_seconds dt - epoch"
  show ?thesis
  proof (cases "local_wall lt_fun ?t")
    case (Inl y)
    with assms have "y = x" by (simp add: timestamp_def mktime_def Let_def)
    with Inl show ?thesis using local_wall_raises by blast
  next
    case w0: (Inr wall)
    let ?u1 = "?t - (wall - ?t)"
    show ?thesis
    proof (cases "local_wall lt_fun ?u1")
      case (Inl y)
      with assms w0 have "y = x" by (simp add: timestamp_def mktime_def Let_def)
      with Inl show ?thesis using local_wall_raises by blast
    next
      case t1: (Inr t1)
      show ?thesis
      proof (cases "t1 = ?t")
        case False
        with assms w0 t1 have "mktime_tail lt_fun ?t ?u1 t1 (t1 - ?u1) = Inl x"
          by (simp add: timestamp_def mktime_def Let_def)
        then show ?thesis by (rule mktime_tail_raises)
      next
        case True
        let ?u2 = "?u1 - max_fold_seconds"
        show ?thesis
        proof (cases "local_wall lt_fun ?u2")
          case (Inl y)
          with assms w0 t1 True have "y = x" by (simp add: timestamp_def mktime_def Let_def)
          with Inl show ?thesis using local_wall_raises by blast
        next
          case (Inr lt2)
          with assms w0 t1 True have "mktime_tail lt_fun ?t ?u1 t1 (lt2 - ?u2) = Inl x"
            by (auto simp: timestamp_def mktime_def Let_def split: if_splits)
          then show ?thesis by (rule mktime_tail_raises)
        qed
      qed
    qed
  qed
qed

lemma except_clause_None:
  "exc_cls x = ValueError \<Longrightarrow> except_ValueError_AttributeError x = Inr None"
  by (simp add: except_ValueError_AttributeError_def)

lemma except_clause_Inl:
  "except_ValueError_AttributeError x = Inl y \<Longrightarrow>
   y = x \<and> exc_cls x \<noteq> ValueError \<and> exc_cls x \<noteq> AttributeError"
  by (auto simp: except_ValueError_AttributeError_def split: if_splits)

text \<open>
  Claim C8 says that \<open>parse_date_to_timestamp\<close> never raises. The \<^verbatim>\<open>except\<close> clause names
  \<^verbatim>\<open>ValueError\<close> and \<^verbatim>\<open>AttributeError\<close> only, and \<^verbatim>\<open>datetime.timestamp()\<close> passes on what
  the platform's time conversion raises: on a host whose C library rejects the times before
  1970, the date \<^verbatim>\<open>1969-12-31 23:59:59 UTC\<close> makes the function raise \<^verbatim>\<open>OSError\<close>.
\<close>

theorem parse_date_to_timestamp_platform_error:
  "parse_date_to_timestamp fails_before_1970 ''1969-12-31 23:59:59 UTC''
     = Inl (Exc OSError ''[Errno 22] Invalid argument'')"
  by code_simp

text \<open>
  Claim C8, amended. For every input string and every host, \<open>parse_date_to_timestamp\<close>
  returns \<^verbatim>\<open>None\<close> whenever the text left after removing \<^verbatim>\<open>' UTC'\<close> does not have the
  shape of a date, whenever \<^verbatim>\<open>strptime\<close> rejects it, and whenever \<^verbatim>\<open>timestamp()\<close> rejects
  the date with \<^verbatim>\<open>ValueError\<close>; it never raises \<^verbatim>\<open>ValueError\<close> or \<^verbatim>\<open>AttributeError\<close>; the
  only exceptions that leave it are those the host's time conversion raises, so on a host
  whose conversion never fails it raises nothing.
\<close>

theorem parse_date_to_timestamp_never_raises:
  "(\<not> date_shaped (str_replace '' UTC'' [] date_str) \<longrightarrow>
      parse_date_to_timestamp host date_str = Inr None)
   \<and> (\<forall>x. strptime (str_replace '' UTC'' [] date_str) = Inl x \<longrightarrow>
          parse_date_to_timestamp host date_str = Inr None)
   \<and> (\<forall>dt x. strptime (str_replace '' UTC'' [] date_str) = Inr dt
          \<and> timestamp host dt = Inl x \<and> exc_cls x = ValueError \<longrightarrow>
          parse_date_to_timestamp host date_str = Inr None)
   \<and> (\<forall>x. parse_date_to_timestamp host date_str = Inl x \<longrightarrow>
          exc_cls x \<noteq> ValueError \<and> exc_cls x \<noteq> AttributeError \<and> (\<exists>u. host u = Inl x))
   \<and> ((\<forall>u. \<exists>v. host u = Inr v) \<longrightarrow> (\<exists>r. parse_date_to_timestamp host date_str = Inr r))"
proof -
  let ?clean = "str_replace '' UTC'' [] date_str"
  have fail: "parse_date_to_timestamp host date_str = Inr None" if "strptime ?clean = Inl x" for x
  proof -
    from that have "exc_cls x = ValueError" by (rule strptime_raises_ValueError)
    with that show ?thesis
      by (simp add: parse_date_to_timestamp_def except_clause_None)
  qed
  have shape: "parse_date_to_timestamp host date_str = Inr None" if "\<not> date_shaped ?clean"
  proof (cases "strptime ?clean")
    case (Inl x)
    then show ?thesis by (rule fail)
  next
    case (Inr dt)
    then have "date_shaped ?clean" by (rule strptime_Inr_shaped)
    with that show ?thesis by simp
  qed
  have range: "parse_date_to_timestamp host date_str = Inr None"
    if "strptime ?clean = Inr dt" and "timestamp host dt = Inl x" and "exc_cls x = ValueError" for dt x
    using that by (simp add: parse_date_to_timestamp_def except_clause_None)
  have raised: "exc_cls x \<noteq> ValueError \<and> exc_cls x \<noteq> AttributeError \<and> (\<exists>u. host u = Inl x)"
    if r: "parse_date_to_timestamp host date_str = Inl x" for x
  proof (cases "strptime ?clean")
    case (Inl y)
    then have "parse_date_to_timestamp host date_str = Inr None" by (rule fail)
    with r show ?thesis by simp
  next
    case (Inr dt)
    show ?thesis
    proof (cases "timestamp host dt")
      case (Inl y)
      with Inr r have "except_ValueError_AttributeError y = Inl x"
        by (simp add: parse_date_to_timestamp_def)
      then have y: "y = x" and cls: "exc_cls x \<noteq> ValueError \<and> exc_cls x \<noteq> AttributeError"
        using except_clause_Inl by blast+
      from Inl y have "exc_cls x = ValueError \<or> (\<exists>u. host u = Inl x)"
        using timestamp_raises by blast
      with cls show ?thesis by blast
    next
      case ok: (Inr t)
      with Inr r show ?thesis by (simp add: parse_date_to_timestamp_def)
    qed
  qed
  have total: "\<exists>r. parse_date_to_timestamp host date_str = Inr r" if h: "\<forall>u. \<exists>v. host u = Inr v"
  proof (cases "parse_date_to_timestamp host date_str")
    case (Inl x)
    then obtain u where "host u = Inl x" using raised by blast
    with h show ?thesis by (metis sum.distinct(1))
  next
    case (Inr r)
    then show ?thesis by blast
  qed
  from shape fail range raised total show ?thesis by blast
qed

theorem parse_date_to_timestamp_never_raises_witness:
  "\<not> date_shaped ''invalid date''
   \<and> parse_date_to_timestamp (fixed_zone 0) ''invalid date'' = Inr None
   \<and> timestamp (fixed_zone 0) \<lparr>year = 1, month = 1, day = 1, hour = 0, minute = 0, second = 0\<rparr>
       = Inl (Exc ValueError ''year is out of range'')
   \<and> parse_date_to_timestamp (fixed_zone 0) ''0001-01-01 00:00:00 UTC'' = Inr None
   \<and> parse_date_to_timestamp (fixed_zone 19800) ''9999-12-31 23:59:59 UTC'' = Inr None
   \<and> parse_date_to_timestamp (fixed_zone 0) ''2024-01-01 12:00:00 UTC'' = Inr (Some 1704110400)"
proof -
  have c: "str_replace '' UTC'' [] ''invalid date'' = ''invalid date''" by code_simp
  have ns: "\<not> date_shaped (str_replace '' UTC'' [] ''invalid date'')"
    unfolding c by (rule invalid_date_not_shaped)
  have a: "parse_date_to_timestamp (fixed_zone 0) ''invalid date'' = Inr None"
    by (rule parse_date_to_timestamp_never_raises
        [of "''invalid date''" "fixed_zone 0", THEN conjunct1, rule_format, OF ns])
  have p: "strptime (str_replace '' UTC'' [] ''0001-01-01 00:00:00 UTC'')
      = Inr \<lparr>year = 1, month = 1, day = 1, hour = 0, minute = 0, second = 0\<rparr>"
    by code_simp
  have ts: "timestamp (fixed_zone 0) \<lparr>year = 1, month = 1, day = 1, hour = 0, minute = 0, second = 0\<rparr>
       = Inl (Exc ValueError ''year is out of range'')"
    by code_simp
  have cls: "exc_cls (Exc ValueError ''year is out of range'') = ValueError" by simp
  have b: "parse_date_to_timestamp (fixed_zone 0) ''0001-01-01 00:00:00 UTC'' = Inr None"
    by (rule parse_date_to_timestamp_never_raises
        [of "''0001-01-01 00:00:00 UTC''" "fixed_zone 0", THEN conjunct2, THEN conjunct2,
         THEN conjunct1, rule_format, OF conjI [OF p conjI [OF ts cls]]])
  have d: "parse_date_to_timestamp (fixed_zone 19800) ''9999-12-31 23:59:59 UTC'' = Inr None"
    by code_simp
  have e: "parse_date_to_timestamp (fixed_zone 0) ''2024-01-01 12:00:00 UTC'' = Inr (Some 1704110400)"
    by code_simp
  from invalid_date_not_shaped a ts b d e show ?thesis
    by (intro conjI)
qed

text \<open>
  Claim C1 asks that the digits are read as UTC on every host. The code reads them as the
  host's local time: on a host eight hours behind UTC the date \<^verbatim>\<open>2025-11-30 00:31:09 UTC\<close>
  gets the time stamp 1764491469 (08:31:09 UTC), on a host set to UTC it gets 1764462669,
  the instant the digits name.
\<close>

theorem parse_date_to_timestamp_host_zone:
  "parse_date_to_timestamp (fixed_zone (- 28800)) ''2025-11-30 00:31:09 UTC'' = Inr (Some 1764491469)
   \<and> parse_date_to_timestamp (fixed_zone 0) ''2025-11-30 00:31:09 UTC'' = Inr (Some 1764462669)"
  by code_simp

lemma strptime_other_whitespace:
  "parse_date_to_timestamp (fixed_zone 0) (''2025-11-30'' @ [char_of (160 :: nat)] @ ''00:31:09 UTC'')
     = Inr (Some 1764462669)"
  by code_simp

section \<open>Fetch and extract: what is saved\<close>

subsection \<open>Substring and classification\<close>


lemma str_contains_iff: "str_contains sub s \<longleftrightarrow> (\<exists>p q. s = p @ sub @ q)"
proof (induction s)
  case Nil
  then show ?case by auto
next
  case (Cons c cs)
  have "starts_with sub (c # cs) \<longleftrightarrow> (\<exists>q. c # cs = sub @ q)"
    unfolding starts_with_def
    by (metis append_eq_conv_conj append_take_drop_id)
  moreover have "(\<exists>p q. c # cs = p @ sub @ q) \<longleftrightarrow> (\<exists>q. c # cs = sub @ q) \<or> (\<exists>p q. cs = p @ sub @ q)"
  proof
    assume "\<exists>p q. c # cs = p @ sub @ q"
    then obtain p q where pq: "c # cs = p @ sub @ q" by blast
    show "(\<exists>q. c # cs = sub @ q) \<or> (\<exists>p q. cs = p @ sub @ q)"
    proof (cases p)
      case Nil
      with pq show ?thesis by auto
    next
      case (Cons a p')
      with pq have "cs = p' @ sub @ q" by simp
      then show ?thesis by blast
    qed
  next
    assume "(\<exists>q. c # cs = sub @ q) \<or> (\<exists>p q. cs = p @ sub @ q)"
    then show "\<exists>p q. c # cs = p @ sub @ q"
    proof
      assume "\<exists>q. c # cs = sub @ q"
      then obtain q where "c # cs = [] @ sub @ q" by auto
      then show ?thesis by blast
    next
      assume "\<exists>p q. cs = p @ sub @ q"
      then obtain p q where "cs = p @ sub @ q" by blast
      then have "c # cs = (c # p) @ sub @ q" by simp
      then show ?thesis by blast
    qed
  qed
  ultimately show ?case using Cons.IH by simp
qed

lemma contains_lower_iff:
  "str_contains sub (lower s) \<longleftrightarrow> (\<exists>p u q. s = p @ u @ q \<and> lower u = sub)"
proof
  assume "str_contains sub (lower s)"
  then obtain p' q' where "map lower_char s = p' @ sub @ q'"
    unfolding str_contains_iff lower_def by blast
  then have "\<exists>p r. s = p @ r \<and> p' = map lower_char p \<and> sub @ q' = map lower_char r"
    by (simp only: map_eq_append_conv)
  then obtain p r where s1: "s = p @ r" and r: "map lower_char r = sub @ q'"
    by auto
  from r have "\<exists>u q. r = u @ q \<and> sub = map lower_char u \<and> q' = map lower_char q"
    by (simp only: map_eq_append_conv)
  then obtain u q where "r = u @ q" and "map lower_char u = sub"
    by auto
  with s1 show "\<exists>p u q. s = p @ u @ q \<and> lower u = sub"
    unfolding lower_def by blast
next
  assume "\<exists>p u q. s = p @ u @ q \<and> lower u = sub"
  then obtain p u q where "s = p @ u @ q" and "lower u = sub" by blast
  then have "lower s = lower p @ sub @ lower q"
    by (auto simp: lower_def)
  then show "str_contains sub (lower s)"
    unfolding str_contains_iff by blast
qed

lemma member_filename_cases:
  "member_filename file_num extension z = file_num @ ''-overlay'' @ extension \<and> member_type z = ''overlay''
   \<or> member_filename file_num extension z = file_num @ ''-main'' @ extension \<and> member_type z = ''main''"
  by (simp add: member_filename_def member_type_def)

lemma member_type_cases: "member_type z = ''overlay'' \<or> member_type z = ''main''"
  by (simp add: member_type_def)

lemma member_filename_type:
  "member_filename file_num extension z = file_num @ ''-'' @ member_type z @ extension"
  by (simp add: member_filename_def member_type_def)

lemma member_type_iff:
  "member_type z = (if (\<exists>p v q. z = p @ v @ q \<and> lower v = ''-overlay'') then ''overlay'' else ''main'')"
  unfolding member_type_def contains_lower_iff ..

subsection \<open>The loop over the members of an archive\<close>


lemma write_file_ok:
  "write_error e (length (trace w)) p = None \<Longrightarrow> write_file e p d w = Inr (written w p d)"
  by (simp add: write_file_def written_def)

lemma extract_members_all:
  assumes "\<forall>n p. write_error e n p = None"
      and "\<forall>zip_info \<in> set names. read_member zf zip_info = Inr (data zip_info)"
  shows "extract_members e zf file_num extension names acc w =
           (Inr (acc @ map (member_ref file_num extension data) names),
            extracted file_num extension data names w)"
  using assms(2)
proof (induction names arbitrary: acc w)
  case Nil
  then show ?case by (simp add: extracted_def)
next
  case (Cons zip_info rest)
  have r: "read_member zf zip_info = Inr (data zip_info)"
    using Cons.prems by simp
  have wr: "write_file e (member_filename file_num extension zip_info) (data zip_info) w
              = Inr (written w (member_filename file_num extension zip_info) (data zip_info))"
    using assms(1) by (simp add: write_file_ok)
  have rest: "\<forall>z \<in> set rest. read_member zf z = Inr (data z)"
    using Cons.prems by simp
  show ?case
    using Cons.IH [OF rest]
    by (simp add: r wr member_ref_def extracted_def Let_def)
qed

lemma disk_extracted_other:
  "p \<notin> member_filename file_num extension ` set names \<Longrightarrow>
   disk (extracted file_num extension data names w) p = disk w p"
  unfolding extracted_def
  by (induction names arbitrary: w) (auto simp: written_def)

lemma disk_extracted_last:
  assumes "\<forall>z \<in> set post. member_filename file_num extension z \<noteq> member_filename file_num extension zip_info"
  shows "disk (extracted file_num extension data (pre @ zip_info # post) w)
           (member_filename file_num extension zip_info) = Some (data zip_info)"
proof -
  have split: "extracted file_num extension data (pre @ zip_info # post) w
      = extracted file_num extension data post
          (written (extracted file_num extension data pre w)
             (member_filename file_num extension zip_info) (data zip_info))"
    by (simp add: extracted_def)
  have "member_filename file_num extension zip_info \<notin> member_filename file_num extension ` set post"
    using assms by auto
  then show ?thesis
    unfolding split by (simp add: disk_extracted_other written_def)
qed

lemma trace_extracted:
  "trace (extracted file_num extension data names w)
     = trace w @ map (\<lambda>z. Write (member_filename file_num extension z)) names"
  unfolding extracted_def
  by (induction names arbitrary: w) (auto simp: written_def)

lemma download_and_extract_zip:
  assumes get: "http_get e (length (trace w)) u = Inr content"
      and zip: "is_zip_file content"
      and opened: "open_zip e content = Inr zf"
      and reads: "\<forall>z \<in> set (namelist zf). read_member zf z = Inr (data z)"
      and writes: "\<forall>n p. write_error e n p = None"
  shows "download_and_extract e u file_num extension w =
           (Inr (map (member_ref file_num extension data) (namelist zf)),
            extracted file_num extension data (namelist zf) (w\<lparr>trace := trace w @ [Get u]\<rparr>))"
  using extract_members_all [OF writes reads, of file_num extension "[]"]
  by (simp add: download_and_extract_def get zip opened)

lemma card_paths_less:
  assumes "\<not> distinct (map member_type names)"
  shows "card (set (map (\<lambda>z. file_num @ ''-'' @ member_type z @ extension) names)) < length names"
proof -
  let ?f = "\<lambda>t. file_num @ ''-'' @ t @ extension"
  let ?ps = "map (\<lambda>z. ?f (member_type z)) names"
  have "?ps = map ?f (map member_type names)"
    by simp
  then have "\<not> distinct ?ps"
    using assms by (metis distinct_map)
  then have "card (set ?ps) \<noteq> length ?ps"
    using card_distinct by blast
  moreover have "card (set ?ps) \<le> length ?ps"
    by (rule card_length)
  ultimately show ?thesis by simp
qed

lemma card_paths_le_2:
  "card (set (map (\<lambda>z. file_num @ ''-'' @ member_type z @ extension) names)) \<le> 2"
proof -
  let ?two = "{file_num @ ''-main'' @ extension, file_num @ ''-overlay'' @ extension}"
  have "set (map (\<lambda>z. file_num @ ''-'' @ member_type z @ extension) names) \<subseteq> ?two"
  proof
    fix x
    assume "x \<in> set (map (\<lambda>z. file_num @ ''-'' @ member_type z @ extension) names)"
    then obtain z where x: "x = file_num @ ''-'' @ member_type z @ extension"
      by auto
    from member_type_cases [of z] show "x \<in> ?two"
      unfolding x by (elim disjE) simp_all
  qed
  then have "card (set (map (\<lambda>z. file_num @ ''-'' @ member_type z @ extension) names)) \<le> card ?two"
    by (intro card_mono) simp_all
  also have "card ?two \<le> 2"
    by (simp add: card_insert_if)
  finally show ?thesis .
qed

text \<open>
  Claim C6. On an archive response whose members can all be read and written,
  \<open>download_and_extract\<close> returns one \<^verbatim>\<open>FileRef\<close> per member, in the order of the archive;
  a member is typed \<^verbatim>\<open>overlay\<close> exactly when its name contains \<^verbatim>\<open>-overlay\<close> in any mix of
  upper and lower case, otherwise \<^verbatim>\<open>main\<close>; it is written to
  \<^verbatim>\<open>{file_num}-overlay{ext}\<close> or \<^verbatim>\<open>{file_num}-main{ext}\<close> accordingly; and an archive of two
  members, one of each type, yields the two types, with both files on disk holding the
  members' contents.
\<close>

theorem download_and_extract_archive:
  assumes get: "http_get e (length (trace w)) u = Inr content"
      and zip: "is_zip_file content"
      and opened: "open_zip e content = Inr zf"
      and reads: "\<forall>z \<in> set (namelist zf). read_member zf z = Inr (data z)"
      and writes: "\<forall>n p. write_error e n p = None"
  shows "(case download_and_extract e u file_num extension w of (result, w') \<Rightarrow>
           result = Inr (map (\<lambda>z. \<lparr>file_path = file_num @ ''-'' @ member_type z @ extension,
                                     file_size = length (data z),
                                     file_type = member_type z\<rparr>) (namelist zf))
         \<and> trace w' = trace w @ Get u
               # map (\<lambda>z. Write (file_num @ ''-'' @ member_type z @ extension)) (namelist zf)
         \<and> (\<forall>a b. namelist zf = [a, b] \<and> member_type a \<noteq> member_type b \<longrightarrow>
                set (map member_type (namelist zf)) = {''overlay'', ''main''}
              \<and> disk w' (file_num @ ''-'' @ member_type a @ extension) = Some (data a)
              \<and> disk w' (file_num @ ''-'' @ member_type b @ extension) = Some (data b)))
       \<and> (\<forall>z. member_type z =
                  (if (\<exists>p v q. z = p @ v @ q \<and> lower v = ''-overlay'') then ''overlay'' else ''main''))"
proof -
  let ?w1 = "w\<lparr>trace := trace w @ [Get u]\<rparr>"
  let ?w' = "extracted file_num extension data (namelist zf) ?w1"
  let ?saved = "map (member_ref file_num extension data) (namelist zf)"
  have run: "download_and_extract e u file_num extension w = (Inr ?saved, ?w')"
    using assms by (rule download_and_extract_zip)
  have refs: "?saved = map (\<lambda>z. \<lparr>file_path = file_num @ ''-'' @ member_type z @ extension,
                               file_size = length (data z),
                               file_type = member_type z\<rparr>) (namelist zf)"
    by (simp add: member_ref_def member_filename_type)
  have cls: "\<forall>z. member_type z =
                  (if (\<exists>p v q. z = p @ v @ q \<and> lower v = ''-overlay'') then ''overlay'' else ''main'')"
    using member_type_iff by blast
  have tr: "trace ?w' = trace w @ Get u # map (\<lambda>z. Write (file_num @ ''-'' @ member_type z @ extension)) (namelist zf)"
    by (simp add: trace_extracted member_filename_type)
  have two: "set (map member_type (namelist zf)) = {''overlay'', ''main''}
              \<and> disk ?w' (file_num @ ''-'' @ member_type a @ extension) = Some (data a)
              \<and> disk ?w' (file_num @ ''-'' @ member_type b @ extension) = Some (data b)"
    if ab: "namelist zf = [a, b]" and ne: "member_type a \<noteq> member_type b" for a b
  proof -
    have fn: "member_filename file_num extension b \<noteq> member_filename file_num extension a"
      using ne by (simp add: member_filename_type)
    have da: "disk ?w' (member_filename file_num extension a) = Some (data a)"
      using disk_extracted_last [of "[b]" file_num extension a data "[]" ?w1] fn ab
      by simp
    have db: "disk ?w' (member_filename file_num extension b) = Some (data b)"
      using disk_extracted_last [of "[]" file_num extension b data "[a]" ?w1] ab
      by simp
    have types: "{member_type a, member_type b} = {''overlay'', ''main''}"
      using ne member_filename_cases [of file_num extension a]
        member_filename_cases [of file_num extension b]
      by auto
    show ?thesis
      using da db types ab by (simp add: member_filename_type)
  qed
  show ?thesis
    unfolding run prod.case
  proof (intro conjI)
    show "Inr ?saved = Inr (map (\<lambda>z. \<lparr>file_path = file_num @ ''-'' @ member_type z @ extension,
                               file_size = length (data z),
                               file_type = member_type z\<rparr>) (namelist zf))"
      using refs by (rule arg_cong)
    show "\<forall>z. member_type z =
                  (if (\<exists>p v q. z = p @ v @ q \<and> lower v = ''-overlay'') then ''overlay'' else ''main'')"
      by (rule cls)
    show "trace ?w' = trace w @ Get u # map (\<lambda>z. Write (file_num @ ''-'' @ member_type z @ extension)) (namelist zf)"
      by (rule tr)
    show "\<forall>a b. namelist zf = [a, b] \<and> member_type a \<noteq> member_type b \<longrightarrow>
                set (map member_type (namelist zf)) = {''overlay'', ''main''}
              \<and> disk ?w' (file_num @ ''-'' @ member_type a @ extension) = Some (data a)
              \<and> disk ?w' (file_num @ ''-'' @ member_type b @ extension) = Some (data b)"
      by (intro allI impI, elim conjE, rule two)
  qed
qed

theorem download_and_extract_archive_witness:
  "is_zip_file zip_body
   \<and> fst (download_and_extract (quiet_env (Inr zip_body) (Inr main_and_overlay_zip))
            ''https://example.com/test.zip'' ''01'' ''.mp4'' fresh_world)
       = Inr [\<lparr>file_path = ''01-main.mp4'', file_size = 3, file_type = ''main''\<rparr>,
              \<lparr>file_path = ''01-overlay.mp4'', file_size = 2, file_type = ''overlay''\<rparr>]
   \<and> disk (snd (download_and_extract (quiet_env (Inr zip_body) (Inr main_and_overlay_zip))
            ''https://example.com/test.zip'' ''01'' ''.mp4'' fresh_world)) ''01-main.mp4''
       = Some [0, 0, 0]
   \<and> disk (snd (download_and_extract (quiet_env (Inr zip_body) (Inr main_and_overlay_zip))
            ''https://example.com/test.zip'' ''01'' ''.mp4'' fresh_world)) ''01-overlay.mp4''
       = Some [1, 1]"
proof -
  let ?e = "quiet_env (Inr zip_body) (Inr main_and_overlay_zip)"
  let ?D = "download_and_extract ?e ''https://example.com/test.zip'' ''01'' ''.mp4'' fresh_world"
  let ?data = "\<lambda>z. if z = ''video-main.mp4'' then [0, 0, 0] else [1, 1 :: byte]"
  have t1: "member_type ''video-main.mp4'' = ''main''" by code_simp
  have t2: "member_type ''video-OVERLAY.png'' = ''overlay''" by code_simp
  have names: "namelist main_and_overlay_zip = [''video-main.mp4'', ''video-OVERLAY.png'']"
    by (simp add: main_and_overlay_zip_def zip_of_def)
  have h1: "http_get ?e (length (trace fresh_world)) ''https://example.com/test.zip'' = Inr zip_body"
    by (simp add: quiet_env_def)
  have h2: "is_zip_file zip_body"
    by (simp add: is_zip_file_def zip_body_def PK_def)
  have h3: "open_zip ?e zip_body = Inr main_and_overlay_zip"
    by (simp add: quiet_env_def)
  have h4: "\<forall>z \<in> set (namelist main_and_overlay_zip). read_member main_and_overlay_zip z = Inr (?data z)"
    by (simp add: main_and_overlay_zip_def zip_of_def)
  have h5: "\<forall>n p. write_error ?e n p = None"
    by (simp add: quiet_env_def)
  have ne: "member_type ''video-main.mp4'' \<noteq> member_type ''video-OVERLAY.png''"
    by (simp add: t1 t2)
  obtain result w' where D: "?D = (result, w')"
    by (cases ?D)
  note T = download_and_extract_archive [OF h1 h2 h3 h4 h5, of "''01''" "''.mp4''", unfolded D prod.case]
  note res = T [THEN conjunct1, THEN conjunct1]
  note two = T [THEN conjunct1, THEN conjunct2, THEN conjunct2]
  from two names ne
  have "disk w' (''01'' @ ''-'' @ member_type ''video-main.mp4'' @ ''.mp4'') = Some (?data ''video-main.mp4'')
      \<and> disk w' (''01'' @ ''-'' @ member_type ''video-OVERLAY.png'' @ ''.mp4'') = Some (?data ''video-OVERLAY.png'')"
    by blast
  then have d: "disk w' ''01-main.mp4'' = Some [0, 0, 0] \<and> disk w' ''01-overlay.mp4'' = Some [1, 1]"
    by (simp add: t1 t2)
  have s: "result = Inr [\<lparr>file_path = ''01-main.mp4'', file_size = 3, file_type = ''main''\<rparr>,
              \<lparr>file_path = ''01-overlay.mp4'', file_size = 2, file_type = ''overlay''\<rparr>]"
    by (simp add: res names t1 t2)
  show ?thesis
    unfolding D fst_conv snd_conv using h2 d s by blast
qed

text \<open>
  Claim C7. On a response that is not an archive, \<open>download_and_extract\<close> writes the whole
  body to \<^verbatim>\<open>{file_num}{ext}\<close> and returns exactly one \<^verbatim>\<open>FileRef\<close>, of type \<^verbatim>\<open>single\<close>, whose
  size is the length of the body; the file on disk is the body, and no other file changes.
\<close>

theorem download_and_extract_singleton:
  assumes get: "http_get e (length (trace w)) u = Inr content"
      and nozip: "\<not> is_zip_file content"
      and writes: "\<forall>n. write_error e n (file_num @ extension) = None"
  shows "case download_and_extract e u file_num extension w of (result, w') \<Rightarrow>
               result = Inr [\<lparr>file_path = file_num @ extension, file_size = length content,
                              file_type = ''single''\<rparr>]
             \<and> disk w' (file_num @ extension) = Some content
             \<and> (\<forall>p. p \<noteq> file_num @ extension \<longrightarrow> disk w' p = disk w p)
             \<and> trace w' = trace w @ [Get u, Write (file_num @ extension)]"
proof -
  let ?w1 = "w\<lparr>trace := trace w @ [Get u]\<rparr>"
  have wr: "write_file e (file_num @ extension) content ?w1 = Inr (written ?w1 (file_num @ extension) content)"
    using writes by (simp add: write_file_ok)
  have run: "download_and_extract e u file_num extension w =
                 (Inr [\<lparr>file_path = file_num @ extension, file_size = length content,
                        file_type = ''single''\<rparr>], written ?w1 (file_num @ extension) content)"
    unfolding download_and_extract_def Let_def
    by (simp only: get nozip wr sum.case if_False)
  show ?thesis
    unfolding run prod.case
  proof (intro conjI)
    show "Inr [\<lparr>file_path = file_num @ extension, file_size = length content, file_type = ''single''\<rparr>]
          = Inr [\<lparr>file_path = file_num @ extension, file_size = length content, file_type = ''single''\<rparr>]"
      by (rule refl)
    show "disk (written ?w1 (file_num @ extension) content) (file_num @ extension) = Some content"
      by (simp add: written_def)
    show "\<forall>p. p \<noteq> file_num @ extension \<longrightarrow>
            disk (written ?w1 (file_num @ extension) content) p = disk w p"
      by (simp add: written_def)
    show "trace (written ?w1 (file_num @ extension) content) = trace w @ [Get u, Write (file_num @ extension)]"
      by (simp add: written_def)
  qed
qed

theorem download_and_extract_singleton_witness:
  "\<not> is_zip_file jpeg_body
   \<and> fst (download_and_extract (quiet_env (Inr jpeg_body) (Inl ''File is not a zip file''))
        ''https://example.com/test.jpg'' ''01'' ''.jpg'' fresh_world)
     = Inr [\<lparr>file_path = ''01.jpg'', file_size = 5, file_type = ''single''\<rparr>]
   \<and> disk (snd (download_and_extract (quiet_env (Inr jpeg_body) (Inl ''File is not a zip file''))
        ''https://example.com/test.jpg'' ''01'' ''.jpg'' fresh_world)) ''01.jpg''
     = Some jpeg_body"
proof -
  let ?e = "quiet_env (Inr jpeg_body) (Inl ''File is not a zip file'')"
  let ?D = "download_and_extract ?e ''https://example.com/test.jpg'' ''01'' ''.jpg'' fresh_world"
  have h1: "http_get ?e (length (trace fresh_world)) ''https://example.com/test.jpg'' = Inr jpeg_body"
    by (simp add: quiet_env_def)
  have h2: "\<not> is_zip_file jpeg_body"
    by (simp add: is_zip_file_def jpeg_body_def PK_def)
  have h3: "\<forall>n. write_error ?e n (''01'' @ ''.jpg'') = None"
    by (simp add: quiet_env_def)
  obtain result w' where D: "?D = (result, w')"
    by (cases ?D)
  note T = download_and_extract_singleton [OF h1 h2 h3, unfolded D prod.case]
  note res = T [THEN conjunct1]
  note d = T [THEN conjunct2, THEN conjunct1]
  have len: "length jpeg_body = 5"
    by (simp add: jpeg_body_def)
  show ?thesis
    unfolding D fst_conv snd_conv using h2 d res by (simp add: len)
qed

text \<open>
  Claim C10. On an archive response every member is written to one of the two paths
  \<^verbatim>\<open>{file_num}-main{ext}\<close> and \<^verbatim>\<open>{file_num}-overlay{ext}\<close>, and no other file changes; of the
  members with the same role the last one is what the path holds afterwards; the list
  returned has one entry per member, so it names at most two distinct paths and is longer
  than the set of paths as soon as two members share a role; an archive without members
  yields the empty list and leaves the disk as it was.
\<close>

theorem archive_members_share_two_paths:
  assumes get: "http_get e (length (trace w)) u = Inr content"
      and zip: "is_zip_file content"
      and opened: "open_zip e content = Inr zf"
      and reads: "\<forall>z \<in> set (namelist zf). read_member zf z = Inr (data z)"
      and writes: "\<forall>n p. write_error e n p = None"
  shows "case download_and_extract e u file_num extension w of
           (Inl x, w') \<Rightarrow> False
         | (Inr saved, w') \<Rightarrow>
             length saved = length (namelist zf)
           \<and> (\<forall>r \<in> set saved. file_path r = file_num @ ''-main'' @ extension
                               \<or> file_path r = file_num @ ''-overlay'' @ extension)
           \<and> (\<forall>p. p \<noteq> file_num @ ''-main'' @ extension \<and> p \<noteq> file_num @ ''-overlay'' @ extension
                  \<longrightarrow> disk w' p = disk w p)
           \<and> (\<forall>pre z post. namelist zf = pre @ z # post
                    \<and> (\<forall>y \<in> set post. member_type y \<noteq> member_type z)
                  \<longrightarrow> disk w' (file_num @ ''-'' @ member_type z @ extension) = Some (data z))
           \<and> card (set (map file_path saved)) \<le> 2
           \<and> (\<not> distinct (map member_type (namelist zf))
                  \<longrightarrow> card (set (map file_path saved)) < length saved)
           \<and> (namelist zf = [] \<longrightarrow> saved = [] \<and> disk w' = disk w)"
proof -
  let ?names = "namelist zf"
  let ?w1 = "w\<lparr>trace := trace w @ [Get u]\<rparr>"
  let ?w' = "extracted file_num extension data ?names ?w1"
  let ?saved = "map (member_ref file_num extension data) ?names"
  have run: "download_and_extract e u file_num extension w = (Inr ?saved, ?w')"
    using assms by (rule download_and_extract_zip)
  have paths: "map file_path ?saved = map (\<lambda>z. file_num @ ''-'' @ member_type z @ extension) ?names"
    by (simp add: member_ref_def member_filename_type)
  have len: "length ?saved = length ?names"
    by simp
  have two: "\<forall>r \<in> set ?saved. file_path r = file_num @ ''-main'' @ extension
                               \<or> file_path r = file_num @ ''-overlay'' @ extension"
    using member_filename_cases [of file_num extension] by (auto simp: member_ref_def)
  have other: "\<forall>p. p \<noteq> file_num @ ''-main'' @ extension \<and> p \<noteq> file_num @ ''-overlay'' @ extension
                  \<longrightarrow> disk ?w' p = disk w p"
  proof (intro allI impI)
    fix p
    assume p: "p \<noteq> file_num @ ''-main'' @ extension \<and> p \<noteq> file_num @ ''-overlay'' @ extension"
    have "p \<notin> member_filename file_num extension ` set ?names"
      using p member_filename_cases [of file_num extension] by auto
    then have "disk ?w' p = disk ?w1 p"
      by (rule disk_extracted_other)
    then show "disk ?w' p = disk w p" by simp
  qed
  have last: "\<forall>pre z post. namelist zf = pre @ z # post
                    \<and> (\<forall>y \<in> set post. member_type y \<noteq> member_type z)
                  \<longrightarrow> disk ?w' (file_num @ ''-'' @ member_type z @ extension) = Some (data z)"
  proof (intro allI impI, elim conjE)
    fix pre z post
    assume n: "namelist zf = pre @ z # post"
       and d: "\<forall>y \<in> set post. member_type y \<noteq> member_type z"
    have "\<forall>y \<in> set post. member_filename file_num extension y \<noteq> member_filename file_num extension z"
      using d by (simp add: member_filename_type)
    then have "disk (extracted file_num extension data (pre @ z # post) ?w1)
                 (member_filename file_num extension z) = Some (data z)"
      by (rule disk_extracted_last)
    then show "disk ?w' (file_num @ ''-'' @ member_type z @ extension) = Some (data z)"
      by (simp add: n member_filename_type)
  qed
  have c2: "card (set (map file_path ?saved)) \<le> 2"
    unfolding paths by (rule card_paths_le_2)
  have dup: "\<not> distinct (map member_type ?names)
                  \<longrightarrow> card (set (map file_path ?saved)) < length ?saved"
    unfolding paths len using card_paths_less by blast
  have empty: "namelist zf = [] \<longrightarrow> ?saved = [] \<and> disk ?w' = disk w"
    by (simp add: extracted_def)
  show ?thesis
    unfolding run prod.case sum.case
    using len two other last c2 dup empty by (intro conjI)
qed

theorem archive_members_share_two_paths_witness:
  "is_zip_file zip_body
   \<and> fst (download_and_extract (quiet_env (Inr zip_body) (Inr two_plain_zip))
            ''https://example.com/test.zip'' ''07'' ''.jpg'' fresh_world)
       = Inr [\<lparr>file_path = ''07-main.jpg'', file_size = 1, file_type = ''main''\<rparr>,
              \<lparr>file_path = ''07-main.jpg'', file_size = 2, file_type = ''main''\<rparr>]
   \<and> disk (snd (download_and_extract (quiet_env (Inr zip_body) (Inr two_plain_zip))
            ''https://example.com/test.zip'' ''07'' ''.jpg'' fresh_world)) ''07-main.jpg''
       = Some [8, 9]
   \<and> disk (snd (download_and_extract (quiet_env (Inr zip_body) (Inr two_plain_zip))
            ''https://example.com/test.zip'' ''07'' ''.jpg'' fresh_world)) ''07.jpg''
       = None"
proof -
  let ?e = "quiet_env (Inr zip_body) (Inr two_plain_zip)"
  let ?D = "download_and_extract ?e ''https://example.com/test.zip'' ''07'' ''.jpg'' fresh_world"
  let ?data = "\<lambda>z. if z = ''a.jpg'' then [7] else [8, 9 :: byte]"
  have t1: "member_type ''a.jpg'' = ''main''" by code_simp
  have t2: "member_type ''b.jpg'' = ''main''" by code_simp
  have names: "namelist two_plain_zip = [''a.jpg'', ''b.jpg'']"
    by (simp add: two_plain_zip_def zip_of_def)
  have h1: "http_get ?e (length (trace fresh_world)) ''https://example.com/test.zip'' = Inr zip_body"
    by (simp add: quiet_env_def)
  have h2: "is_zip_file zip_body"
    by (simp add: is_zip_file_def zip_body_def PK_def)
  have h3: "open_zip ?e zip_body = Inr two_plain_zip"
    by (simp add: quiet_env_def)
  have h4: "\<forall>z \<in> set (namelist two_plain_zip). read_member two_plain_zip z = Inr (?data z)"
    by (simp add: two_plain_zip_def zip_of_def)
  have h5: "\<forall>n p. write_error ?e n p = None"
    by (simp add: quiet_env_def)
  have run: "fst ?D = Inr [\<lparr>file_path = ''07-main.jpg'', file_size = 1, file_type = ''main''\<rparr>,
              \<lparr>file_path = ''07-main.jpg'', file_size = 2, file_type = ''main''\<rparr>]"
    using download_and_extract_zip [OF h1 h2 h3 h4 h5, of "''07''" "''.jpg''"]
    by (simp add: names member_ref_def member_filename_type t1 t2)
  obtain w' where D: "?D = (Inr [\<lparr>file_path = ''07-main.jpg'', file_size = 1, file_type = ''main''\<rparr>,
              \<lparr>file_path = ''07-main.jpg'', file_size = 2, file_type = ''main''\<rparr>], w')"
    using run by (cases ?D) simp
  note T = archive_members_share_two_paths [OF h1 h2 h3 h4 h5, of "''07''" "''.jpg''",
      unfolded D prod.case sum.case]
  note other = T [THEN conjunct2, THEN conjunct2, THEN conjunct1]
  note last = T [THEN conjunct2, THEN conjunct2, THEN conjunct2, THEN conjunct1]
  have "namelist two_plain_zip = [''a.jpg''] @ ''b.jpg'' # []
        \<and> (\<forall>y \<in> set []. member_type y \<noteq> member_type ''b.jpg'')"
    by (simp add: names)
  with last have "disk w' (''07'' @ ''-'' @ member_type ''b.jpg'' @ ''.jpg'') = Some (?data ''b.jpg'')"
    by blast
  then have d1: "disk w' ''07-main.jpg'' = Some [8, 9]"
    by (simp add: t2)
  have d3: "disk w' ''07.jpg'' = None"
    using other [rule_format, of "''07.jpg''"] by (simp add: fresh_world_def)
  show ?thesis
    unfolding D fst_conv snd_conv using h2 d1 d3 by blast
qed

section \<open>Properties of the orchestrator\<close>

subsection \<open>What the try block does to the world\<close>


lemma extends_refl: "extends w [] w"
  by (simp add: extends_def)

lemma extends_trans: "extends w ev w1 \<Longrightarrow> extends w1 ev' w2 \<Longrightarrow> extends w (ev @ ev') w2"
  by (simp add: extends_def)

lemma write_file_extends:
  "write_file e p d w = Inr w' \<Longrightarrow> extends w [Write p] w'"
  by (auto simp: write_file_def extends_def split: option.splits)

lemma extract_members_extends:
  "extract_members e zf file_num extension names acc w = (r, w') \<Longrightarrow> \<exists>ev. extends w ev w'"
proof (induction names arbitrary: acc w)
  case Nil
  then show ?case using extends_refl by auto
next
  case (Cons zip_info rest)
  show ?case
  proof (cases "read_member zf zip_info")
    case (Inl x)
    with Cons.prems show ?thesis using extends_refl by auto
  next
    case (Inr file_data)
    show ?thesis
    proof (cases "write_file e (member_filename file_num extension zip_info) file_data w")
      case (Inl x)
      with Inr Cons.prems show ?thesis using extends_refl by (auto simp: Let_def)
    next
      case wr: (Inr w1)
      from wr have e1: "extends w [Write (member_filename file_num extension zip_info)] w1"
        by (rule write_file_extends)
      from Cons.prems Inr wr obtain acc' where
        "extract_members e zf file_num extension rest acc' w1 = (r, w')"
        by (auto simp: Let_def)
      then obtain ev where "extends w1 ev w'"
        using Cons.IH by blast
      with e1 show ?thesis
        using extends_trans by blast
    qed
  qed
qed

lemma download_and_extract_extends:
  assumes "download_and_extract e u file_num extension w = (r, w')"
  shows "\<exists>ev. extends w (Get u # ev) w'"
proof -
  let ?w1 = "w\<lparr>trace := trace w @ [Get u]\<rparr>"
  have g: "extends w [Get u] ?w1"
    by (simp add: extends_def)
  have "\<exists>ev. extends ?w1 ev w'"
  proof (cases "http_get e (length (trace w)) u")
    case (Inl msg)
    with assms have "w' = ?w1" by (simp add: download_and_extract_def)
    then show ?thesis using extends_refl by blast
  next
    case (Inr content)
    show ?thesis
    proof (cases "is_zip_file content")
      case True
      show ?thesis
      proof (cases "open_zip e content")
        case (Inl msg)
        with assms Inr True have "w' = ?w1" by (simp add: download_and_extract_def)
        then show ?thesis using extends_refl by blast
      next
        case z: (Inr zf)
        with assms Inr True
        have "extract_members e zf file_num extension (namelist zf) [] ?w1 = (r, w')"
          by (simp add: download_and_extract_def)
        then show ?thesis by (rule extract_members_extends)
      qed
    next
      case False
      show ?thesis
      proof (cases "write_file e (file_num @ extension) content ?w1")
        case (Inl x)
        with assms Inr False have "w' = ?w1" by (simp add: download_and_extract_def)
        then show ?thesis using extends_refl by blast
      next
        case wr: (Inr w2)
        with assms Inr False have "w' = w2" by (simp add: download_and_extract_def)
        with wr show ?thesis using write_file_extends by blast
      qed
    qed
  qed
  then obtain ev where "extends ?w1 ev w'" by blast
  with g have "extends w ([Get u] @ ev) w'" by (rule extends_trans)
  then show ?thesis by auto
qed

lemma set_file_timestamp_extends:
  "set_file_timestamp e p ts w = Inr w' \<Longrightarrow> \<exists>ev. extends w ev w'"
  by (auto simp: set_file_timestamp_def extends_def split: option.splits if_splits)

lemma set_file_timestamps_extends:
  "set_file_timestamps e fs ts w = (r, w') \<Longrightarrow> \<exists>ev. extends w ev w'"
proof (induction fs arbitrary: w)
  case Nil
  then show ?case using extends_refl by auto
next
  case (Cons f fs)
  show ?case
  proof (cases "set_file_timestamp e (file_path f) ts w")
    case (Inl x)
    with Cons.prems show ?thesis using extends_refl by auto
  next
    case (Inr w1)
    then obtain ev1 where e1: "extends w ev1 w1"
      using set_file_timestamp_extends by blast
    from Cons.prems Inr have "set_file_timestamps e fs ts w1 = (r, w')" by simp
    then obtain ev2 where "extends w1 ev2 w'" using Cons.IH by blast
    with e1 show ?thesis using extends_trans by blast
  qed
qed

lemma try_block_extends:
  assumes "try_block e memory m file_num extension w = (r, w')"
  shows "\<exists>ev. extends w (Get (rec_url memory) # ev) w'"
proof -
  obtain r1 w1 where d: "download_and_extract e (rec_url memory) file_num extension w = (r1, w1)"
    by (cases "download_and_extract e (rec_url memory) file_num extension w")
  then obtain ev1 where e1: "extends w (Get (rec_url memory) # ev1) w1"
    using download_and_extract_extends by blast
  have "\<exists>ev2. extends w1 ev2 w'"
  proof (cases "w' = w1")
    case True
    then show ?thesis using extends_refl by blast
  next
    case False
    with assms d obtain fs ts r2 where "set_file_timestamps e fs ts w1 = (r2, w')"
      by (auto simp: try_block_def split: sum.splits if_splits prod.splits)
    then show ?thesis by (rule set_file_timestamps_extends)
  qed
  then obtain ev2 where "extends w1 ev2 w'" by blast
  with e1 have "extends w ((Get (rec_url memory) # ev1) @ ev2) w'" by (rule extends_trans)
  then show ?thesis by auto
qed

lemma try_block_nonempty:
  "try_block e memory m file_num extension w = (Inr files_saved, w') \<Longrightarrow> files_saved \<noteq> []"
  by (auto simp: try_block_def split: sum.splits if_splits prod.splits)

subsection \<open>One iteration of the loop, case by case\<close>


lemma process_item_run:
  assumes "\<not> length memories \<le> idx"
      and "\<not> (status m = ''success'' \<and> files m \<noteq> [])"
      and "save_metadata e (metadata_list[idx := m\<lparr>status := ''in_progress''\<rparr>]) w = Inr w1"
      and "try_block e (memories ! idx) (m\<lparr>status := ''in_progress''\<rparr>) (fmt_02d (number m))
             (get_file_extension (media_type m)) w1 = (r, w2)"
  shows "process_item e memories (idx, m) (metadata_list, w) =
           (case r of
              Inr files_saved \<Rightarrow>
                save_and_continue e
                  (metadata_list[idx := m\<lparr>status := ''success'', files := files_saved\<rparr>]) w2
            | Inl x \<Rightarrow>
                if caught x then
                  save_and_continue e
                    (metadata_list[idx := m\<lparr>status := ''failed'', error := Some (exc_msg x)\<rparr>]) w2
                else (Some x, metadata_list[idx := m\<lparr>status := ''in_progress''\<rparr>], w2))"
  by (simp add: process_item_def Let_def assms split: sum.splits)

lemma process_item_skip:
  assumes "\<not> length memories \<le> idx" and "status m = ''success'' \<and> files m \<noteq> []"
  shows "process_item e memories (idx, m) (metadata_list, w) = (None, metadata_list, w)"
  by (simp add: process_item_def Let_def assms)

lemma process_item_no_memory:
  assumes "length memories \<le> idx"
  shows "process_item e memories (idx, m) (metadata_list, w)
           = (Some (Exc IndexError ''list index out of range''), metadata_list, w)"
  by (simp add: process_item_def assms)

lemma process_item_save_fails:
  assumes "\<not> length memories \<le> idx"
      and "\<not> (status m = ''success'' \<and> files m \<noteq> [])"
      and "save_metadata e (metadata_list[idx := m\<lparr>status := ''in_progress''\<rparr>]) w = Inl x"
  shows "process_item e memories (idx, m) (metadata_list, w)
           = (Some x, metadata_list[idx := m\<lparr>status := ''in_progress''\<rparr>], w)"
  by (simp add: process_item_def Let_def assms)

lemma save_metadata_Inr:
  "save_metadata e metadata_list w = Inr w1 \<Longrightarrow>
   w1 = w\<lparr>metadata_json := Some metadata_list, trace := trace w @ [Save metadata_list]\<rparr>"
  by (auto simp: save_metadata_def split: option.splits)

lemma save_metadata_Inl:
  "save_metadata e metadata_list w = Inl x \<Longrightarrow> save_error e (length (trace w)) \<noteq> None"
  by (auto simp: save_metadata_def split: option.splits)

lemma save_and_continue_None:
  "save_and_continue e metadata_list w = (None, final_list, w') \<Longrightarrow>
   final_list = metadata_list
   \<and> w' = w\<lparr>metadata_json := Some metadata_list, trace := trace w @ [Save metadata_list]\<rparr>"
  by (auto simp: save_and_continue_def dest: save_metadata_Inr split: sum.splits)

lemma save_and_continue_ok_env:
  "\<forall>n. save_error e n = None \<Longrightarrow>
   save_and_continue e metadata_list w =
     (None, metadata_list, w\<lparr>metadata_json := Some metadata_list, trace := trace w @ [Save metadata_list]\<rparr>)"
  by (simp add: save_and_continue_def save_metadata_def)

subsection \<open>The ledger invariant\<close>


lemma ledger_ok_update:
  "ledger_ok metadata_list \<Longrightarrow> entry_ok m \<Longrightarrow> ledger_ok (metadata_list[idx := m])"
  unfolding ledger_ok_def list_all_iff
  using set_update_subset_insert [of metadata_list idx m] by auto

lemma extends_ok: "extends w ev w' \<Longrightarrow> world_ok w \<Longrightarrow> world_ok w'"
  unfolding extends_def world_ok_def list_all_iff
  by (auto split: event.splits)

lemma save_metadata_ok:
  "save_metadata e metadata_list w = Inr w' \<Longrightarrow> ledger_ok metadata_list \<Longrightarrow> world_ok w
     \<Longrightarrow> world_ok w'"
  by (auto simp: save_metadata_def world_ok_def split: option.splits)

lemma save_and_continue_ok:
  assumes "save_and_continue e metadata_list w = (x, final_list, w')"
      and "ledger_ok metadata_list" and "world_ok w"
  shows "ledger_ok final_list \<and> world_ok w'"
proof (cases "save_metadata e metadata_list w")
  case (Inl err)
  with assms show ?thesis by (simp add: save_and_continue_def)
next
  case (Inr w1)
  with assms have "final_list = metadata_list" and "w' = w1"
    by (simp_all add: save_and_continue_def)
  with Inr assms show ?thesis using save_metadata_ok by blast
qed

lemma entry_ok_in_progress:
  "entry_ok m \<Longrightarrow> \<not> (status m = ''success'' \<and> files m \<noteq> []) \<Longrightarrow>
   files m = [] \<and> entry_ok (m\<lparr>status := ''in_progress''\<rparr>)"
  by (auto simp: entry_ok_def)

lemma process_item_ok:
  assumes L: "ledger_ok metadata_list" and w: "world_ok w" and m: "entry_ok m"
      and run: "process_item e memories (idx, m) (metadata_list, w) = (x, final_list, w')"
  shows "ledger_ok final_list \<and> world_ok w'"
proof (cases "length memories \<le> idx")
  case True
  with run L w show ?thesis by (simp add: process_item_no_memory)
next
  case mem: False
  show ?thesis
  proof (cases "status m = ''success'' \<and> files m \<noteq> []")
    case True
    with mem run L w show ?thesis by (simp add: process_item_skip)
  next
    case False
    let ?m1 = "m\<lparr>status := ''in_progress''\<rparr>"
    let ?list1 = "metadata_list[idx := ?m1]"
    from False m have empty: "files m = []" and m1: "entry_ok ?m1"
      using entry_ok_in_progress by blast+
    have L1: "ledger_ok ?list1"
      using L m1 by (rule ledger_ok_update)
    show ?thesis
    proof (cases "save_metadata e ?list1 w")
      case (Inl err)
      with run L1 w show ?thesis
        by (simp add: process_item_save_fails [OF mem False Inl])
    next
      case s1: (Inr w1)
      have w1: "world_ok w1"
        using s1 L1 w by (rule save_metadata_ok)
      obtain r w2 where tb: "try_block e (memories ! idx) ?m1 (fmt_02d (number m))
             (get_file_extension (media_type m)) w1 = (r, w2)"
        by (cases "try_block e (memories ! idx) ?m1 (fmt_02d (number m))
             (get_file_extension (media_type m)) w1")
      then obtain ev where "extends w1 (Get (rec_url (memories ! idx)) # ev) w2"
        using try_block_extends by blast
      then have w2: "world_ok w2"
        using w1 by (rule extends_ok)
      note unfold = process_item_run [OF mem False s1 tb]
      show ?thesis
      proof (cases r)
        case (Inr files_saved)
        with tb have "files_saved \<noteq> []"
          using try_block_nonempty by blast
        then have "entry_ok (m\<lparr>status := ''success'', files := files_saved\<rparr>)"
          by (simp add: entry_ok_def)
        with L have L2: "ledger_ok (metadata_list[idx := m\<lparr>status := ''success'', files := files_saved\<rparr>])"
          by (rule ledger_ok_update)
        from run unfold Inr
        have "save_and_continue e (metadata_list[idx := m\<lparr>status := ''success'', files := files_saved\<rparr>]) w2
                = (x, final_list, w')"
          by simp
        then show ?thesis using L2 w2 by (rule save_and_continue_ok)
      next
        case (Inl err)
        show ?thesis
        proof (cases "caught err")
          case True
          have "entry_ok (m\<lparr>status := ''failed'', error := Some (exc_msg err)\<rparr>)"
            using empty by (simp add: entry_ok_def)
          with L have L2: "ledger_ok (metadata_list[idx := m\<lparr>status := ''failed'', error := Some (exc_msg err)\<rparr>])"
            by (rule ledger_ok_update)
          from run unfold Inl True
          have "save_and_continue e (metadata_list[idx := m\<lparr>status := ''failed'', error := Some (exc_msg err)\<rparr>]) w2
                  = (x, final_list, w')"
            by simp
          then show ?thesis using L2 w2 by (rule save_and_continue_ok)
        next
          case nc: False
          with run unfold Inl have "final_list = ?list1" and "w' = w2"
            by simp_all
          with L1 w2 show ?thesis by simp
        qed
      qed
    qed
  qed
qed

lemma process_items_ok:
  assumes "\<forall>item \<in> set items. entry_ok (snd item)"
      and "ledger_ok metadata_list" and "world_ok w"
      and "process_items e memories items (metadata_list, w) = (x, final_list, w')"
  shows "ledger_ok final_list \<and> world_ok w'"
  using assms
proof (induction items arbitrary: metadata_list w)
  case Nil
  then show ?case by simp
next
  case (Cons item rest)
  obtain idx m where item: "item = (idx, m)" by (cases item)
  obtain x1 list1 w1 where step: "process_item e memories (idx, m) (metadata_list, w) = (x1, list1, w1)"
    by (cases "process_item e memories (idx, m) (metadata_list, w)")
  have m: "entry_ok m" using Cons.prems(1) item by simp
  have ok1: "ledger_ok list1 \<and> world_ok w1"
    using Cons.prems(2,3) m step by (rule process_item_ok)
  show ?case
  proof (cases x1)
    case None
    with Cons.prems(4) item step
    have "process_items e memories rest (list1, w1) = (x, final_list, w')" by simp
    moreover have "\<forall>item \<in> set rest. entry_ok (snd item)" using Cons.prems(1) by simp
    ultimately show ?thesis using Cons.IH ok1 by blast
  next
    case (Some err)
    with Cons.prems(4) item step have "final_list = list1" and "w' = w1" by simp_all
    with ok1 show ?thesis by simp
  qed
qed

lemma items_to_download_subset:
  "item \<in> set (items_to_download resume retry_failed metadata_list) \<Longrightarrow>
   fst item < length metadata_list \<and> snd item = metadata_list ! fst item"
  by (cases item) (auto simp: items_to_download_def in_set_enumerate_eq split: if_splits)

lemma seed_ok: "ledger_ok (map new_metadata (enumerate n memories))"
  by (auto simp: ledger_ok_def list_all_iff new_metadata_def entry_ok_def)

lemma initialize_metadata_ok:
  assumes "initialize_metadata e memories w = Inr (metadata_list, w1)" and "world_ok w"
  shows "ledger_ok metadata_list \<and> world_ok w1"
proof (cases "metadata_json w")
  case None
  with assms(1) have ml: "metadata_list = map new_metadata (enumerate 1 memories)"
    and s: "save_metadata e (map new_metadata (enumerate 1 memories)) w = Inr w1"
    by (auto simp: initialize_metadata_def Let_def split: sum.splits)
  from s seed_ok assms(2) have "world_ok w1" by (rule save_metadata_ok)
  with ml seed_ok show ?thesis by simp
next
  case (Some loaded)
  with assms(1) have "metadata_list = loaded" and "w1 = w"
    by (simp_all add: initialize_metadata_def)
  with Some assms(2) show ?thesis by (simp add: world_ok_def)
qed

lemma download_all_memories_ok:
  assumes "world_ok w"
  shows "world_ok (snd (download_all_memories e memories resume retry_failed w))"
proof (cases "memories = [] \<or> mkdir_error e \<noteq> None")
  case True
  then have "snd (download_all_memories e memories resume retry_failed w) = w"
    by (auto simp: download_all_memories_def)
  with assms show ?thesis by simp
next
  case False
  then have pre: "memories \<noteq> []" "mkdir_error e = None" by simp_all
  show ?thesis
  proof (cases "initialize_metadata e memories w")
    case (Inl err)
    with pre have "snd (download_all_memories e memories resume retry_failed w) = w"
      by (simp add: download_all_memories_def)
    with assms show ?thesis by simp
  next
    case (Inr p)
    obtain metadata_list w1 where p: "p = (metadata_list, w1)" by (cases p)
    with Inr assms have ok1: "ledger_ok metadata_list \<and> world_ok w1"
      using initialize_metadata_ok by blast
    let ?items = "items_to_download resume retry_failed metadata_list"
    show ?thesis
    proof (cases "?items = []")
      case True
      with pre Inr p have "snd (download_all_memories e memories resume retry_failed w) = w1"
        by (simp add: download_all_memories_def)
      with ok1 show ?thesis by simp
    next
      case ne: False
      obtain x final_list w2 where
        loop: "process_items e memories ?items (metadata_list, w1) = (x, final_list, w2)"
        by (cases "process_items e memories ?items (metadata_list, w1)")
      have "\<forall>item \<in> set ?items. entry_ok (snd item)"
      proof
        fix item assume "item \<in> set ?items"
        then have "fst item < length metadata_list" and "snd item = metadata_list ! fst item"
          using items_to_download_subset by blast+
        then have "snd item \<in> set metadata_list" by simp
        with ok1 show "entry_ok (snd item)"
          by (simp add: ledger_ok_def list_all_iff)
      qed
      then have ok2: "ledger_ok final_list \<and> world_ok w2"
        using ok1 loop process_items_ok by blast
      show ?thesis
      proof (cases x)
        case (Some err)
        with pre Inr p ne loop have "snd (download_all_memories e memories resume retry_failed w) = w2"
          by (simp add: download_all_memories_def)
        with ok2 show ?thesis by simp
      next
        case None
        show ?thesis
        proof (cases "save_metadata e final_list w2")
          case (Inl err)
          with None pre Inr p ne loop
          have "snd (download_all_memories e memories resume retry_failed w) = w2"
            by (simp add: download_all_memories_def)
          with ok2 show ?thesis by simp
        next
          case s: (Inr w3)
          with None pre Inr p ne loop
          have "snd (download_all_memories e memories resume retry_failed w) = w3"
            by (simp add: download_all_memories_def)
          moreover from s ok2 have "world_ok w3" using save_metadata_ok by blast
          ultimately show ?thesis by simp
        qed
      qed
    qed
  qed
qed

text \<open>
  Claim C2. The ledger seeded from the rows is consistent (every entry is \<^verbatim>\<open>pending\<close> with
  no files); and from a consistent world, every ledger that a run of
  \<open>download_all_memories\<close> writes, in any mode and whatever the outside answers, is
  consistent: \<^verbatim>\<open>files\<close> is non-empty exactly in the entries whose status is \<^verbatim>\<open>success\<close>.
  Each iteration of the loop keeps the ledger in memory consistent as well.
\<close>

theorem ledger_invariant:
  assumes "world_ok w"
  shows "ledger_ok (map new_metadata (enumerate 1 memories))
       \<and> world_ok (snd (download_all_memories e memories resume retry_failed w))
       \<and> (ledger_ok metadata_list \<and> entry_ok m \<longrightarrow>
            ledger_ok (fst (snd (process_item e memories (idx, m) (metadata_list, w))))
          \<and> world_ok (snd (snd (process_item e memories (idx, m) (metadata_list, w)))))"
proof (intro conjI impI)
  show "ledger_ok (map new_metadata (enumerate 1 memories))"
    by (rule seed_ok)
  show "world_ok (snd (download_all_memories e memories resume retry_failed w))"
    using assms by (rule download_all_memories_ok)
next
  assume a: "ledger_ok metadata_list \<and> entry_ok m"
  obtain x final_list w' where run: "process_item e memories (idx, m) (metadata_list, w) = (x, final_list, w')"
    by (cases "process_item e memories (idx, m) (metadata_list, w)")
  from a assms run have "ledger_ok final_list \<and> world_ok w'"
    using process_item_ok by blast
  then show "ledger_ok (fst (snd (process_item e memories (idx, m) (metadata_list, w))))"
    and "world_ok (snd (snd (process_item e memories (idx, m) (metadata_list, w))))"
    by (simp_all add: run)
qed

theorem ledger_invariant_witness:
  "world_ok fresh_world
   \<and> world_ok (snd (download_all_memories jpeg_env [first_memory, second_memory] False False fresh_world))
   \<and> map_option (map (\<lambda>m. (status m, map file_path (files m))))
        (metadata_json (snd (download_all_memories jpeg_env [first_memory, second_memory] False False
           fresh_world)))
      = Some [(''success'', [''01.jpg'']), (''success'', [''02.mp4''])]"
proof -
  have h: "world_ok fresh_world"
    by (simp add: world_ok_def fresh_world_def)
  have c: "map_option (map (\<lambda>m. (status m, map file_path (files m))))
        (metadata_json (snd (download_all_memories jpeg_env [first_memory, second_memory] False False
           fresh_world)))
      = Some [(''success'', [''01.jpg'']), (''success'', [''02.mp4''])]"
    by code_simp
  from ledger_invariant [OF h, of "[first_memory, second_memory]" jpeg_env False False] h c
  show ?thesis by blast
qed

subsection \<open>Selection\<close>

lemma items_indices_increasing:
  "sorted_wrt (<) (map fst (items_to_download resume retry_failed metadata_list))"
proof -
  have "sorted_wrt (<) (map fst (filter P (enumerate 0 metadata_list)))" for P
  proof -
    have m: "sorted_wrt (<) (map fst (enumerate 0 metadata_list))
            = sorted_wrt (\<lambda>a b. fst a < fst b) (enumerate 0 metadata_list)"
      by (rule sorted_wrt_map)
    have "sorted_wrt (<) (map fst (enumerate 0 metadata_list))"
      by (simp add: sorted_wrt_upt)
    with m have "sorted_wrt (\<lambda>a b. fst a < fst b) (enumerate 0 metadata_list)"
      by blast
    then have "sorted_wrt (\<lambda>a b. fst a < fst b) (filter P (enumerate 0 metadata_list))"
      by (rule sorted_wrt_filter)
    then show ?thesis by (simp add: sorted_wrt_map)
  qed
  from this [of "\<lambda>x. True"] this show ?thesis
    by (simp add: items_to_download_def)
qed

lemma download_all_memories_run:
  assumes "memories \<noteq> []" and "mkdir_error e = None"
      and "initialize_metadata e memories w = Inr (metadata_list, w1)"
  shows "download_all_memories e memories resume retry_failed w =
           (if items_to_download resume retry_failed metadata_list = [] then (None, w1)
            else final_save e
                   (process_items e memories (items_to_download resume retry_failed metadata_list)
                      (metadata_list, w1)))"
  using assms
  by (simp add: download_all_memories_def final_save_def Let_def split: prod.splits option.splits)

lemma in_set_items_to_download:
  "(i, m) \<in> set (items_to_download resume retry_failed metadata_list) \<longleftrightarrow>
     i < length metadata_list \<and> m = metadata_list ! i
     \<and> (if resume then status m = ''pending'' \<or> status m = ''in_progress'' \<or> status m = ''failed''
        else if retry_failed then status m = ''failed'' else True)"
  by (auto simp: items_to_download_def in_set_enumerate_eq)

lemma process_items_all_skipped:
  assumes "\<forall>item \<in> set items. fst item < length memories
             \<and> status (snd item) = ''success'' \<and> files (snd item) \<noteq> []"
  shows "process_items e memories items s = (None, s)"
  using assms
proof (induction items)
  case Nil
  then show ?case by simp
next
  case (Cons item rest)
  obtain idx m where item: "item = (idx, m)" by (cases item)
  obtain metadata_list w where s: "s = (metadata_list, w)" by (cases s)
  from Cons.prems item have mem: "\<not> length memories \<le> idx"
    and fin: "status m = ''success'' \<and> files m \<noteq> []"
    by auto
  have "process_item e memories (idx, m) (metadata_list, w) = (None, metadata_list, w)"
    using mem fin by (rule process_item_skip)
  moreover have "process_items e memories rest s = (None, s)"
    using Cons.IH Cons.prems by simp
  ultimately show ?case by (simp add: item s)
qed

text \<open>
  Claim C3 says that a retry-failed run selects exactly the entries whose status is
  \<^verbatim>\<open>failed\<close>, and that a selected entry that is already done is skipped. The code tests
  \<^verbatim>\<open>resume\<close> first: a run with both flags processes the \<^verbatim>\<open>pending\<close> and \<^verbatim>\<open>in_progress\<close>
  entries too. And it reads \<^verbatim>\<open>memories[idx]\<close> before the test for a finished entry: on a
  ledger longer than the rows of the export the run ends with \<^verbatim>\<open>IndexError\<close> at a
  finished entry instead of skipping it.
\<close>

theorem run_modes_counterexample:
  "map status mixed_ledger = [''success'', ''failed'', ''pending'', ''in_progress'']
   \<and> map_option (map status)
        (metadata_json (snd (download_all_memories jpeg_env four_memories True True
           (with_ledger mixed_ledger))))
       = Some [''success'', ''success'', ''success'', ''success'']
   \<and> map (\<lambda>m. (status m, files m \<noteq> [])) done_ledger = [(''success'', True), (''success'', True)]
   \<and> fst (download_all_memories jpeg_env [first_memory] False False (with_ledger done_ledger))
       = Some (Exc IndexError ''list index out of range'')"
  by code_simp

text \<open>
  Claim C3, amended. A run that reaches the selection (there are rows, the output directory
  and the ledger are available) processes, in the order of the ledger, exactly the entries
  selected as follows: with \<^verbatim>\<open>resume\<close>, whether or not \<^verbatim>\<open>retry_failed\<close> is set too, those
  whose status is \<^verbatim>\<open>pending\<close>, \<^verbatim>\<open>in_progress\<close> or \<^verbatim>\<open>failed\<close>; with \<^verbatim>\<open>retry_failed\<close> and
  without \<^verbatim>\<open>resume\<close>, those whose status is \<^verbatim>\<open>failed\<close>; with neither, all entries. A
  selected entry whose index lies within the rows and whose status is \<^verbatim>\<open>success\<close> with a
  non-empty \<^verbatim>\<open>files\<close> leaves the ledger and the world as they were (so no request is made)
  and the loop goes on with the next entry; a run that selects only such entries does
  nothing but write the ledger at its end.
\<close>

theorem selection_policy_of_a_run:
  assumes "memories \<noteq> []" and "mkdir_error e = None"
      and "initialize_metadata e memories w = Inr (metadata_list, w1)"
  shows "download_all_memories e memories resume retry_failed w =
           (if items_to_download resume retry_failed metadata_list = [] then (None, w1)
            else final_save e
                   (process_items e memories (items_to_download resume retry_failed metadata_list)
                      (metadata_list, w1)))
       \<and> (\<forall>i m. (i, m) \<in> set (items_to_download resume retry_failed metadata_list) \<longleftrightarrow>
              i < length metadata_list \<and> m = metadata_list ! i
              \<and> (if resume
                  then status m = ''pending'' \<or> status m = ''in_progress'' \<or> status m = ''failed''
                  else if retry_failed then status m = ''failed'' else True))
       \<and> sorted_wrt (<) (map fst (items_to_download resume retry_failed metadata_list))
       \<and> (\<forall>idx m rest s. idx < length memories \<and> status m = ''success'' \<and> files m \<noteq> [] \<longrightarrow>
              process_item e memories (idx, m) s = (None, s)
            \<and> process_items e memories ((idx, m) # rest) s = process_items e memories rest s)
       \<and> ((\<forall>item \<in> set (items_to_download resume retry_failed metadata_list).
              fst item < length memories
              \<and> status (snd item) = ''success'' \<and> files (snd item) \<noteq> []) \<longrightarrow>
            download_all_memories e memories resume retry_failed w =
              (if items_to_download resume retry_failed metadata_list = [] then (None, w1)
               else final_save e (None, metadata_list, w1)))"
proof (intro conjI allI impI)
  show run: "download_all_memories e memories resume retry_failed w =
           (if items_to_download resume retry_failed metadata_list = [] then (None, w1)
            else final_save e
                   (process_items e memories (items_to_download resume retry_failed metadata_list)
                      (metadata_list, w1)))"
    using assms by (rule download_all_memories_run)
  show "sorted_wrt (<) (map fst (items_to_download resume retry_failed metadata_list))"
    by (rule items_indices_increasing)
  show "(i, m) \<in> set (items_to_download resume retry_failed metadata_list) \<longleftrightarrow>
              i < length metadata_list \<and> m = metadata_list ! i
              \<and> (if resume
                  then status m = ''pending'' \<or> status m = ''in_progress'' \<or> status m = ''failed''
                  else if retry_failed then status m = ''failed'' else True)" for i m
    by (rule in_set_items_to_download)
  {
    fix idx :: nat and m :: metadata and rest :: "(nat \<times> metadata) list"
      and s :: "metadata list \<times> world"
    assume a: "idx < length memories \<and> status m = ''success'' \<and> files m \<noteq> []"
    obtain current w' where s: "s = (current, w')" by (cases s)
    from a have mem: "\<not> length memories \<le> idx"
      and fin: "status m = ''success'' \<and> files m \<noteq> []" by auto
    have "process_item e memories (idx, m) (current, w') = (None, current, w')"
      using mem fin by (rule process_item_skip)
    then show skip: "process_item e memories (idx, m) s = (None, s)"
      by (simp add: s)
    show "process_items e memories ((idx, m) # rest) s = process_items e memories rest s"
      by (simp add: skip)
  }
  {
    assume "\<forall>item \<in> set (items_to_download resume retry_failed metadata_list).
              fst item < length memories
              \<and> status (snd item) = ''success'' \<and> files (snd item) \<noteq> []"
    then have "process_items e memories (items_to_download resume retry_failed metadata_list)
                 (metadata_list, w1) = (None, metadata_list, w1)"
      by (rule process_items_all_skipped)
    with run show "download_all_memories e memories resume retry_failed w =
              (if items_to_download resume retry_failed metadata_list = [] then (None, w1)
               else final_save e (None, metadata_list, w1))"
      by simp
  }
qed

theorem selection_policy_of_a_run_witness:
  "map fst (items_to_download False True mixed_ledger) = [1]
   \<and> download_all_memories jpeg_env four_memories False True (with_ledger mixed_ledger) =
       final_save jpeg_env
         (process_items jpeg_env four_memories (items_to_download False True mixed_ledger)
            (mixed_ledger, with_ledger mixed_ledger))
   \<and> map_option (map status)
        (metadata_json (snd (download_all_memories jpeg_env four_memories False True
           (with_ledger mixed_ledger))))
       = Some [''success'', ''success'', ''pending'', ''in_progress'']
   \<and> status (mixed_ledger ! 0) = ''success'' \<and> files (mixed_ledger ! 0) \<noteq> []
   \<and> process_item jpeg_env four_memories (0, mixed_ledger ! 0) (mixed_ledger, with_ledger mixed_ledger)
       = (None, mixed_ledger, with_ledger mixed_ledger)"
proof -
  let ?w = "with_ledger mixed_ledger"
  have h1: "four_memories \<noteq> []" by (simp add: four_memories_def)
  have h2: "mkdir_error jpeg_env = None" by (simp add: jpeg_env_def quiet_env_def)
  have h3: "initialize_metadata jpeg_env four_memories ?w = Inr (mixed_ledger, ?w)"
    by (simp add: initialize_metadata_def with_ledger_def)
  note T = selection_policy_of_a_run [OF h1 h2 h3, of False True]
  have a: "map fst (items_to_download False True mixed_ledger) = [1]" by code_simp
  then have ne: "items_to_download False True mixed_ledger \<noteq> []" by auto
  have b: "download_all_memories jpeg_env four_memories False True ?w =
       final_save jpeg_env
         (process_items jpeg_env four_memories (items_to_download False True mixed_ledger)
            (mixed_ledger, ?w))"
    using T [THEN conjunct1] ne by simp
  have c: "map_option (map status)
        (metadata_json (snd (download_all_memories jpeg_env four_memories False True ?w)))
       = Some [''success'', ''success'', ''pending'', ''in_progress'']"
    by code_simp
  have d: "status (mixed_ledger ! 0) = ''success'' \<and> files (mixed_ledger ! 0) \<noteq> []"
    by (simp add: mixed_ledger_def)
  have l: "(0::nat) < length four_memories" by (simp add: four_memories_def)
  have f: "process_item jpeg_env four_memories (0, mixed_ledger ! 0) (mixed_ledger, ?w)
       = (None, mixed_ledger, ?w)"
    using T [THEN conjunct2, THEN conjunct2, THEN conjunct2, THEN conjunct1, rule_format,
        of 0 "mixed_ledger ! 0" "(mixed_ledger, ?w)" "[]"] l d
    by blast
  from a b c d f show ?thesis by (intro conjI) blast+
qed

subsection \<open>Errors of one entry\<close>


lemma process_item_abort_uncaught:
  assumes saves: "\<forall>n. save_error e n = None"
      and run: "process_item e memories item s = (Some x, s')"
  shows "\<not> caught x"
proof -
  obtain idx m where item: "item = (idx, m)" by (cases item)
  obtain metadata_list w where s: "s = (metadata_list, w)" by (cases s)
  show ?thesis
  proof (cases "length memories \<le> idx")
    case True
    with run item s have "x = Exc IndexError ''list index out of range''"
      by (simp add: process_item_no_memory)
    then show ?thesis by (simp add: caught_def)
  next
    case mem: False
    show ?thesis
    proof (cases "status m = ''success'' \<and> files m \<noteq> []")
      case True
      with mem run item s show ?thesis by (simp add: process_item_skip)
    next
      case ns: False
      let ?list1 = "metadata_list[idx := m\<lparr>status := ''in_progress''\<rparr>]"
      let ?w1 = "w\<lparr>metadata_json := Some ?list1, trace := trace w @ [Save ?list1]\<rparr>"
      have s1: "save_metadata e ?list1 w = Inr ?w1"
        using saves by (simp add: save_metadata_def)
      obtain r w2 where tb: "try_block e (memories ! idx) (m\<lparr>status := ''in_progress''\<rparr>)
           (fmt_02d (number m)) (get_file_extension (media_type m)) ?w1 = (r, w2)"
        by (cases "try_block e (memories ! idx) (m\<lparr>status := ''in_progress''\<rparr>)
           (fmt_02d (number m)) (get_file_extension (media_type m)) ?w1")
      note unfold = process_item_run [OF mem ns s1 tb]
      show ?thesis
      proof (cases r)
        case (Inr files_saved)
        with run item s unfold show ?thesis
          by (simp add: save_and_continue_ok_env [OF saves])
      next
        case (Inl y)
        show ?thesis
        proof (cases "caught y")
          case True
          with Inl run item s unfold show ?thesis
            by (simp add: save_and_continue_ok_env [OF saves])
        next
          case False
          with Inl run item s unfold show ?thesis by simp
        qed
      qed
    qed
  qed
qed

lemma process_items_abort_uncaught:
  assumes saves: "\<forall>n. save_error e n = None"
      and run: "process_items e memories items s = (Some x, s')"
  shows "\<not> caught x"
  using run
proof (induction items arbitrary: s)
  case Nil
  then show ?case by simp
next
  case (Cons item rest)
  obtain x1 s1 where step: "process_item e memories item s = (x1, s1)"
    by (cases "process_item e memories item s")
  show ?case
  proof (cases x1)
    case None
    with Cons.prems step have "process_items e memories rest s1 = (Some x, s')" by simp
    then show ?thesis by (rule Cons.IH)
  next
    case (Some y)
    with Cons.prems step have "y = x" by simp
    with Some step show ?thesis using process_item_abort_uncaught [OF saves] by blast
  qed
qed

text \<open>
  Claim C4 says that any exception of the fetch and extract stage marks the entry
  \<^verbatim>\<open>failed\<close> and never ends the batch. The \<^verbatim>\<open>except\<close> clause names three classes only: on
  an archive with an encrypted member \<^verbatim>\<open>zf.read\<close> raises \<^verbatim>\<open>RuntimeError\<close>, which leaves
  \<open>download_all_memories\<close>; the entry stays \<^verbatim>\<open>in_progress\<close> and the next entry is never
  processed.
\<close>

theorem uncaught_exception_aborts_batch:
  "fst (download_all_memories encrypted_env [first_memory, second_memory] False False fresh_world)
     = Some (Exc RuntimeError ''File is encrypted, password required for extraction'')
   \<and> map_option (map status)
        (metadata_json (snd (download_all_memories encrypted_env [first_memory, second_memory]
           False False fresh_world)))
     = Some [''in_progress'', ''pending'']"
  by code_simp

text \<open>
  Claim C4, amended. When the ledger can be written, an exception of class \<^verbatim>\<open>OSError\<close>,
  \<^verbatim>\<open>requests.RequestException\<close> or \<^verbatim>\<open>zipfile.BadZipFile\<close> raised in the \<^verbatim>\<open>try\<close> block of an
  entry sets its status to \<^verbatim>\<open>failed\<close>, records the message in \<^verbatim>\<open>error\<close>, writes the
  ledger, and the loop goes on with the next entry; no exception of these classes ever
  ends the loop.
\<close>

theorem caught_exception_marks_failed:
  assumes saves: "\<forall>n. save_error e n = None"
      and mem: "idx < length memories"
      and ns: "\<not> (status m = ''success'' \<and> files m \<noteq> [])"
      and tb: "try_block e (memories ! idx) (m\<lparr>status := ''in_progress''\<rparr>) (fmt_02d (number m))
                 (get_file_extension (media_type m))
                 (persisted (metadata_list[idx := m\<lparr>status := ''in_progress''\<rparr>]) w) = (Inl x, w2)"
      and cls: "exc_cls x = OSError \<or> exc_cls x = RequestException \<or> exc_cls x = BadZipFile"
  shows "process_item e memories (idx, m) (metadata_list, w) =
           (None, metadata_list[idx := m\<lparr>status := ''failed'', error := Some (exc_msg x)\<rparr>],
            persisted (metadata_list[idx := m\<lparr>status := ''failed'', error := Some (exc_msg x)\<rparr>]) w2)
       \<and> process_items e memories ((idx, m) # rest) (metadata_list, w) =
           process_items e memories rest
             (metadata_list[idx := m\<lparr>status := ''failed'', error := Some (exc_msg x)\<rparr>],
              persisted (metadata_list[idx := m\<lparr>status := ''failed'', error := Some (exc_msg x)\<rparr>]) w2)
       \<and> (\<forall>items s y. fst (process_items e memories items s) = Some y \<longrightarrow>
              exc_cls y \<noteq> OSError \<and> exc_cls y \<noteq> RequestException \<and> exc_cls y \<noteq> BadZipFile)"
proof -
  let ?list1 = "metadata_list[idx := m\<lparr>status := ''in_progress''\<rparr>]"
  let ?failed = "metadata_list[idx := m\<lparr>status := ''failed'', error := Some (exc_msg x)\<rparr>]"
  have mem': "\<not> length memories \<le> idx" using mem by simp
  have s1: "save_metadata e ?list1 w = Inr (persisted ?list1 w)"
    using saves by (simp add: save_metadata_def persisted_def)
  have c: "caught x" using cls by (auto simp: caught_def)
  have step: "process_item e memories (idx, m) (metadata_list, w) = (None, ?failed, persisted ?failed w2)"
    using process_item_run [OF mem' ns s1 tb] c
    by (simp add: save_and_continue_ok_env [OF saves] persisted_def)
  have loop: "process_items e memories ((idx, m) # rest) (metadata_list, w) =
           process_items e memories rest (?failed, persisted ?failed w2)"
    by (simp add: step)
  have only: "\<forall>items s y. fst (process_items e memories items s) = Some y \<longrightarrow>
              exc_cls y \<noteq> OSError \<and> exc_cls y \<noteq> RequestException \<and> exc_cls y \<noteq> BadZipFile"
  proof (intro allI impI)
    fix items s y
    assume "fst (process_items e memories items s) = Some y"
    then obtain s' where "process_items e memories items s = (Some y, s')"
      by (cases "process_items e memories items s") simp
    then have "\<not> caught y"
      using process_items_abort_uncaught [OF saves] by blast
    then show "exc_cls y \<noteq> OSError \<and> exc_cls y \<noteq> RequestException \<and> exc_cls y \<noteq> BadZipFile"
      by (simp add: caught_def)
  qed
  from step loop only show ?thesis by blast
qed

theorem caught_exception_marks_failed_witness:
  "fst (try_block not_found_env first_memory ((seeded ! 0)\<lparr>status := ''in_progress''\<rparr>) ''01'' ''.jpg''
          (persisted (seeded[0 := (seeded ! 0)\<lparr>status := ''in_progress''\<rparr>]) fresh_world))
     = Inl (Exc RequestException ''404 Client Error: Not Found for url'')
   \<and> fst (process_item not_found_env [first_memory, second_memory] (0, seeded ! 0) (seeded, fresh_world))
     = None
   \<and> map (\<lambda>m. (status m, error m))
        (fst (snd (process_item not_found_env [first_memory, second_memory] (0, seeded ! 0)
           (seeded, fresh_world))))
     = [(''failed'', Some ''404 Client Error: Not Found for url''), (''pending'', None)]"
proof -
  let ?e = not_found_env
  let ?m = "seeded ! 0"
  let ?w1 = "persisted (seeded[0 := ?m\<lparr>status := ''in_progress''\<rparr>]) fresh_world"
  let ?x = "Exc RequestException ''404 Client Error: Not Found for url''"
  have num: "fmt_02d (number ?m) = ''01''" by code_simp
  have ext: "get_file_extension (media_type ?m) = ''.jpg''" by code_simp
  have mem0: "[first_memory, second_memory] ! 0 = first_memory" by simp
  have h1: "\<forall>n. save_error ?e n = None"
    by (simp add: not_found_env_def quiet_env_def)
  have h2: "(0::nat) < length [first_memory, second_memory]" by simp
  have h3: "\<not> (status ?m = ''success'' \<and> files ?m \<noteq> [])"
    by (simp add: seeded_def new_metadata_def enumerate_eq_zip)
  have f: "fst (try_block ?e first_memory (?m\<lparr>status := ''in_progress''\<rparr>) ''01'' ''.jpg'' ?w1) = Inl ?x"
    by code_simp
  then have h4: "try_block ?e ([first_memory, second_memory] ! 0) (?m\<lparr>status := ''in_progress''\<rparr>)
        (fmt_02d (number ?m)) (get_file_extension (media_type ?m)) ?w1
      = (Inl ?x, snd (try_block ?e first_memory (?m\<lparr>status := ''in_progress''\<rparr>) ''01'' ''.jpg'' ?w1))"
    unfolding num ext mem0 by (simp add: prod_eq_iff)
  have h5: "exc_cls ?x = OSError \<or> exc_cls ?x = RequestException \<or> exc_cls ?x = BadZipFile"
    by simp
  note T = caught_exception_marks_failed [OF h1 h2 h3 h4 h5, THEN conjunct1]
  have g: "map (\<lambda>m. (status m, error m)) (seeded[0 := ?m\<lparr>status := ''failed'', error := Some (exc_msg ?x)\<rparr>])
     = [(''failed'', Some ''404 Client Error: Not Found for url''), (''pending'', None)]"
    by (simp add: seeded_def new_metadata_def enumerate_eq_zip)
  show ?thesis
    using f g by (simp add: T)
qed

subsection \<open>Durability\<close>


lemma process_item_trace:
  assumes mem: "\<not> length memories \<le> idx"
      and ns: "\<not> (status m = ''success'' \<and> files m \<noteq> [])"
      and run: "process_item e memories (idx, m) (metadata_list, w) = (None, final_list, w')"
  shows "(\<exists>mid. trace w' = trace w @ Save (metadata_list[idx := m\<lparr>status := ''in_progress''\<rparr>])
                    # Get (rec_url (memories ! idx)) # mid @ [Save final_list]
              \<and> list_all (\<lambda>ev. \<not> is_Save ev) mid)
       \<and> metadata_json w' = Some final_list
       \<and> ((\<exists>files_saved. files_saved \<noteq> []
              \<and> final_list = metadata_list[idx := m\<lparr>status := ''success'', files := files_saved\<rparr>])
          \<or> (\<exists>msg. final_list = metadata_list[idx := m\<lparr>status := ''failed'', error := Some msg\<rparr>]))"
proof -
  let ?list1 = "metadata_list[idx := m\<lparr>status := ''in_progress''\<rparr>]"
  obtain w1 where s1: "save_metadata e ?list1 w = Inr w1"
  proof (cases "save_metadata e ?list1 w")
    case (Inl x)
    from run show ?thesis
      by (simp add: process_item_save_fails [OF mem ns Inl])
  next
    case (Inr w1)
    then show ?thesis by (rule that)
  qed
  then have w1: "w1 = w\<lparr>metadata_json := Some ?list1, trace := trace w @ [Save ?list1]\<rparr>"
    by (rule save_metadata_Inr)
  obtain r w2 where tb: "try_block e (memories ! idx) (m\<lparr>status := ''in_progress''\<rparr>)
       (fmt_02d (number m)) (get_file_extension (media_type m)) w1 = (r, w2)"
    by (cases "try_block e (memories ! idx) (m\<lparr>status := ''in_progress''\<rparr>)
       (fmt_02d (number m)) (get_file_extension (media_type m)) w1")
  then obtain mid where ext: "extends w1 (Get (rec_url (memories ! idx)) # mid) w2"
    using try_block_extends by blast
  then have tr2: "trace w2 = trace w @ Save ?list1 # Get (rec_url (memories ! idx)) # mid"
    and quiet: "list_all (\<lambda>ev. \<not> is_Save ev) mid"
    by (simp_all add: extends_def w1)
  note unfold = process_item_run [OF mem ns s1 tb]
  have fin: "w' = w2\<lparr>metadata_json := Some final_list, trace := trace w2 @ [Save final_list]\<rparr>
      \<and> ((\<exists>files_saved. files_saved \<noteq> []
              \<and> final_list = metadata_list[idx := m\<lparr>status := ''success'', files := files_saved\<rparr>])
          \<or> (\<exists>msg. final_list = metadata_list[idx := m\<lparr>status := ''failed'', error := Some msg\<rparr>]))"
  proof (cases r)
    case (Inr files_saved)
    with tb have ne: "files_saved \<noteq> []" using try_block_nonempty by blast
    from run unfold Inr
    have "save_and_continue e (metadata_list[idx := m\<lparr>status := ''success'', files := files_saved\<rparr>]) w2
            = (None, final_list, w')"
      by simp
    then have "final_list = metadata_list[idx := m\<lparr>status := ''success'', files := files_saved\<rparr>]
       \<and> w' = w2\<lparr>metadata_json := Some (metadata_list[idx := m\<lparr>status := ''success'', files := files_saved\<rparr>]),
                  trace := trace w2 @ [Save (metadata_list[idx := m\<lparr>status := ''success'', files := files_saved\<rparr>])]\<rparr>"
      by (rule save_and_continue_None)
    with ne show ?thesis by blast
  next
    case (Inl x)
    show ?thesis
    proof (cases "caught x")
      case True
      from run unfold Inl True
      have "save_and_continue e (metadata_list[idx := m\<lparr>status := ''failed'', error := Some (exc_msg x)\<rparr>]) w2
              = (None, final_list, w')"
        by simp
      then have "final_list = metadata_list[idx := m\<lparr>status := ''failed'', error := Some (exc_msg x)\<rparr>]
         \<and> w' = w2\<lparr>metadata_json := Some (metadata_list[idx := m\<lparr>status := ''failed'', error := Some (exc_msg x)\<rparr>]),
                    trace := trace w2 @ [Save (metadata_list[idx := m\<lparr>status := ''failed'', error := Some (exc_msg x)\<rparr>])]\<rparr>"
        by (rule save_and_continue_None)
      then show ?thesis by blast
    next
      case False
      with run unfold Inl show ?thesis by simp
    qed
  qed
  then have w': "w' = w2\<lparr>metadata_json := Some final_list, trace := trace w2 @ [Save final_list]\<rparr>"
    by blast
  have "trace w' = trace w @ Save ?list1 # Get (rec_url (memories ! idx)) # mid @ [Save final_list]"
    by (simp add: w' tr2)
  moreover have "metadata_json w' = Some final_list"
    by (simp add: w')
  ultimately show ?thesis
    using quiet fin by blast
qed

lemma process_item_sync:
  assumes "metadata_json w = Some metadata_list"
      and "process_item e memories item (metadata_list, w) = (None, final_list, w')"
  shows "metadata_json w' = Some final_list"
proof -
  obtain idx m where item: "item = (idx, m)" by (cases item)
  show ?thesis
  proof (cases "length memories \<le> idx")
    case True
    with assms item show ?thesis by (simp add: process_item_no_memory)
  next
    case mem: False
    show ?thesis
    proof (cases "status m = ''success'' \<and> files m \<noteq> []")
      case True
      with mem assms item show ?thesis by (simp add: process_item_skip)
    next
      case False
      from assms(2) item have "process_item e memories (idx, m) (metadata_list, w) = (None, final_list, w')"
        by simp
      with mem False show ?thesis using process_item_trace by blast
    qed
  qed
qed

lemma process_items_sync:
  assumes "metadata_json w = Some metadata_list"
      and "process_items e memories items (metadata_list, w) = (None, final_list, w')"
  shows "metadata_json w' = Some final_list"
  using assms
proof (induction items arbitrary: metadata_list w)
  case Nil
  then show ?case by simp
next
  case (Cons item rest)
  obtain x1 list1 w1 where step: "process_item e memories item (metadata_list, w) = (x1, list1, w1)"
    by (cases "process_item e memories item (metadata_list, w)")
  show ?case
  proof (cases x1)
    case None
    with step Cons.prems(1) have "metadata_json w1 = Some list1"
      using process_item_sync by blast
    moreover from Cons.prems(2) step None
    have "process_items e memories rest (list1, w1) = (None, final_list, w')" by simp
    ultimately show ?thesis by (rule Cons.IH)
  next
    case (Some err)
    with Cons.prems(2) step show ?thesis by simp
  qed
qed

lemma initialize_metadata_sync:
  "initialize_metadata e memories w = Inr (metadata_list, w1) \<Longrightarrow>
   metadata_json w1 = Some metadata_list"
  by (auto simp: initialize_metadata_def Let_def dest: save_metadata_Inr
      split: option.splits sum.splits)

text \<open>
  Claim C5. Processing an entry that is not skipped writes the ledger twice and never in
  between: first with the entry \<^verbatim>\<open>in_progress\<close>, before the request is made, and last with
  the entry \<^verbatim>\<open>success\<close> or \<^verbatim>\<open>failed\<close>, before the next entry begins. So whenever the loop
  has gone through any number of entries the ledger document is the ledger in memory, as
  it is right after the ledger was loaded or seeded.
\<close>

theorem ledger_persisted_after_every_transition:
  "(\<not> (status m = ''success'' \<and> files m \<noteq> [])
      \<and> process_item e memories (idx, m) (metadata_list, w) = (None, final_list, w') \<longrightarrow>
        (\<exists>mid. trace w' = trace w @ Save (metadata_list[idx := m\<lparr>status := ''in_progress''\<rparr>])
                    # Get (rec_url (memories ! idx)) # mid @ [Save final_list]
              \<and> list_all (\<lambda>ev. \<not> is_Save ev) mid)
      \<and> metadata_json w' = Some final_list
      \<and> ((\<exists>files_saved. files_saved \<noteq> []
              \<and> final_list = metadata_list[idx := m\<lparr>status := ''success'', files := files_saved\<rparr>])
          \<or> (\<exists>msg. final_list = metadata_list[idx := m\<lparr>status := ''failed'', error := Some msg\<rparr>])))
   \<and> (metadata_json start_world = Some start_list
      \<and> process_items e memories items (start_list, start_world) = (None, end_list, end_world) \<longrightarrow>
        metadata_json end_world = Some end_list)
   \<and> (initialize_metadata e memories old_world = Inr (loaded, new_world) \<longrightarrow> metadata_json new_world = Some loaded)"
proof (intro conjI impI)
  assume a: "\<not> (status m = ''success'' \<and> files m \<noteq> [])
      \<and> process_item e memories (idx, m) (metadata_list, w) = (None, final_list, w')"
  then have ns: "\<not> (status m = ''success'' \<and> files m \<noteq> [])"
    and run: "process_item e memories (idx, m) (metadata_list, w) = (None, final_list, w')"
    by blast+
  have mem: "\<not> length memories \<le> idx"
  proof
    assume "length memories \<le> idx"
    with run show False by (simp add: process_item_no_memory)
  qed
  note T = process_item_trace [OF mem ns run]
  show "\<exists>mid. trace w' = trace w @ Save (metadata_list[idx := m\<lparr>status := ''in_progress''\<rparr>])
                    # Get (rec_url (memories ! idx)) # mid @ [Save final_list]
              \<and> list_all (\<lambda>ev. \<not> is_Save ev) mid"
    by (rule T [THEN conjunct1])
  show "metadata_json w' = Some final_list"
    by (rule T [THEN conjunct2, THEN conjunct1])
  show "(\<exists>files_saved. files_saved \<noteq> []
              \<and> final_list = metadata_list[idx := m\<lparr>status := ''success'', files := files_saved\<rparr>])
          \<or> (\<exists>msg. final_list = metadata_list[idx := m\<lparr>status := ''failed'', error := Some msg\<rparr>])"
    by (rule T [THEN conjunct2, THEN conjunct2])
next
  assume "metadata_json start_world = Some start_list
      \<and> process_items e memories items (start_list, start_world) = (None, end_list, end_world)"
  then show "metadata_json end_world = Some end_list"
    using process_items_sync by blast
next
  assume "initialize_metadata e memories old_world = Inr (loaded, new_world)"
  then show "metadata_json new_world = Some loaded"
    by (rule initialize_metadata_sync)
qed

theorem ledger_persisted_after_every_transition_witness:
  "fst (process_items jpeg_env [first_memory, second_memory] (items_to_download False False seeded)
          (seeded, persisted seeded fresh_world)) = None
   \<and> map status (fst (snd (process_items jpeg_env [first_memory, second_memory]
          (items_to_download False False seeded) (seeded, persisted seeded fresh_world))))
       = [''success'', ''success'']
   \<and> metadata_json (snd (snd (process_items jpeg_env [first_memory, second_memory]
          (items_to_download False False seeded) (seeded, persisted seeded fresh_world))))
       = Some (fst (snd (process_items jpeg_env [first_memory, second_memory]
          (items_to_download False False seeded) (seeded, persisted seeded fresh_world))))"
proof -
  let ?r = "process_items jpeg_env [first_memory, second_memory] (items_to_download False False seeded)
          (seeded, persisted seeded fresh_world)"
  have a: "fst ?r = None" by code_simp
  have b: "map status (fst (snd ?r)) = [''success'', ''success'']" by code_simp
  have h1: "metadata_json (persisted seeded fresh_world) = Some seeded"
    by (simp add: persisted_def)
  have h2: "?r = (None, fst (snd ?r), snd (snd ?r))"
    using a by (simp add: prod_eq_iff)
  from ledger_persisted_after_every_transition
    [where start_world = "persisted seeded fresh_world" and start_list = seeded and e = jpeg_env
       and memories = "[first_memory, second_memory]"
       and items = "items_to_download False False seeded"
       and end_list = "fst (snd ?r)" and end_world = "snd (snd ?r)",
     THEN conjunct2, THEN conjunct1] h1 h2
  have "metadata_json (snd (snd ?r)) = Some (fst (snd ?r))"
    by blast
  with a b show ?thesis by blast
qed

end
